theory Spec2Isabelle
  imports Complex_Main "HOL-Library.Multiset" "HOL-Library.Sublist"
    "HOL-Library.List_Lexorder" "HOL-Library.Char_ord"
begin

text \<open>
  The state store of the seller console: the reducer of \<^verbatim>\<open>AppContext.jsx\<close>, the
  operations the provider builds on it (record update with rollback, conversion of a
  lead into an Opportunity, persisted filter criteria, the timer that clears the error)
  and the filtered and sorted view of \<^verbatim>\<open>LeadsList.jsx\<close>.
\<close>

section \<open>Data model\<close>

text \<open>
  A lead as the JSON records of the lead source have it.  Text fields are strings, the
  score is a number (modelled as an integer).
\<close>

record lead =
  lead_id :: string
  name :: string
  company :: string
  email :: string
  source :: string
  score :: int
  status :: string

text \<open>
  The \<^verbatim>\<open>updates\<close> object handed to \<^verbatim>\<open>updateLead\<close>: a partial lead.  A field that the
  object does not carry is \<open>None\<close>.
\<close>

record lead_updates =
  u_id :: "string option"
  u_name :: "string option"
  u_company :: "string option"
  u_email :: "string option"
  u_source :: "string option"
  u_score :: "int option"
  u_status :: "string option"

record opportunity =
  opp_id :: string
  opp_name :: string
  stage :: string
  amount :: int
  accountName :: string
  leadId :: string
  probability :: int
  expectedCloseDate :: string

record filters =
  search :: string
  status_f :: string
  sortBy :: string
  sortOrder :: string

record filters_updates =
  u_search :: "string option"
  u_status_f :: "string option"
  u_sortBy :: "string option"
  u_sortOrder :: "string option"

record state =
  leads :: "lead list"
  opportunities :: "opportunity list"
  selectedLead :: "lead option"
  isLoading :: bool
  error :: "string option"
  filters :: filters
  liveMessage :: "string option"

text \<open>One property of an object spread \<^verbatim>\<open>{ ...a, ...b }\<close>: the value of \<^verbatim>\<open>b\<close> wins when present.\<close>

fun spread_field :: "'a \<Rightarrow> 'a option \<Rightarrow> 'a" where
  "spread_field x None = x"
| "spread_field x (Some y) = y"

text \<open>\<^verbatim>\<open>{ ...lead, ...updates }\<close>\<close>

definition spread_lead :: "lead \<Rightarrow> lead_updates \<Rightarrow> lead" where
  "spread_lead l u =
     \<lparr> lead_id = spread_field (lead_id l) (u_id u),
       name = spread_field (name l) (u_name u),
       company = spread_field (company l) (u_company u),
       email = spread_field (email l) (u_email u),
       source = spread_field (source l) (u_source u),
       score = spread_field (score l) (u_score u),
       status = spread_field (status l) (u_status u) \<rparr>"

text \<open>\<^verbatim>\<open>{ ...state.filters, ...action.payload }\<close>\<close>

definition spread_filters :: "filters \<Rightarrow> filters_updates \<Rightarrow> filters" where
  "spread_filters f u =
     \<lparr> search = spread_field (search f) (u_search u),
       status_f = spread_field (status_f f) (u_status_f u),
       sortBy = spread_field (sortBy f) (u_sortBy u),
       sortOrder = spread_field (sortOrder f) (u_sortOrder u) \<rparr>"

text \<open>A complete criteria object used as the payload of a merge.\<close>

definition all_of :: "filters \<Rightarrow> filters_updates" where
  "all_of f =
     \<lparr> u_search = Some (search f), u_status_f = Some (status_f f),
       u_sortBy = Some (sortBy f), u_sortOrder = Some (sortOrder f) \<rparr>"

section \<open>The reducer\<close>

datatype action =
    SET_LEADS "lead list"
  | SET_OPPORTUNITIES "opportunity list"
  | SET_LOADING bool
  | SET_ERROR "string option"
  | SET_SELECTED_LEAD "lead option"
  | UPDATE_LEAD string lead_updates
  | ADD_OPPORTUNITY opportunity
  | SET_FILTERS filters_updates
  | CLEAR_ERROR
  | UPDATE_LEAD_ROLLBACK string lead
  | SET_LIVE_MESSAGE string
  | UNKNOWN_ACTION

text \<open>\<^verbatim>\<open>state.selectedLead?.id === id\<close>: false when nothing is selected.\<close>

definition selected_has_id :: "lead option \<Rightarrow> string \<Rightarrow> bool" where
  "selected_has_id sel i = (case sel of None \<Rightarrow> False | Some m \<Rightarrow> lead_id m = i)"

fun appReducer :: "state \<Rightarrow> action \<Rightarrow> state" where
  "appReducer s (SET_LEADS payload) = s\<lparr>leads := payload, isLoading := False\<rparr>"
| "appReducer s (SET_OPPORTUNITIES payload) = s\<lparr>opportunities := payload\<rparr>"
| "appReducer s (SET_LOADING payload) = s\<lparr>isLoading := payload\<rparr>"
| "appReducer s (SET_ERROR payload) = s\<lparr>error := payload, isLoading := False\<rparr>"
| "appReducer s (SET_SELECTED_LEAD payload) = s\<lparr>selectedLead := payload\<rparr>"
| "appReducer s CLEAR_ERROR = s\<lparr>error := None\<rparr>"
| "appReducer s (SET_LIVE_MESSAGE payload) = s\<lparr>liveMessage := Some payload\<rparr>"
| "appReducer s (UPDATE_LEAD i updates) =
     s\<lparr>leads := map (\<lambda>l. if lead_id l = i then spread_lead l updates else l) (leads s),
       selectedLead :=
         (if selected_has_id (selectedLead s) i
          then map_option (\<lambda>m. spread_lead m updates) (selectedLead s)
          else selectedLead s)\<rparr>"
| "appReducer s (ADD_OPPORTUNITY payload) =
     s\<lparr>opportunities := opportunities s @ [payload]\<rparr>"
| "appReducer s (SET_FILTERS payload) =
     s\<lparr>filters := spread_filters (filters s) payload\<rparr>"
| "appReducer s (UPDATE_LEAD_ROLLBACK i originalLead) =
     s\<lparr>leads := map (\<lambda>l. if lead_id l = i then originalLead else l) (leads s),
       selectedLead :=
         (if selected_has_id (selectedLead s) i then Some originalLead
          else selectedLead s)\<rparr>"
| "appReducer s UNKNOWN_ACTION = s"

section \<open>Asynchronous operations as event traces\<close>

text \<open>
  An operation of the provider runs on the single event queue: it dispatches actions and
  awaits simulated remote calls (a \<^verbatim>\<open>setTimeout\<close> of the given number of milliseconds
  inside a promise).  Its run is the list of these events in program order.  The state
  an operation reads (\<^verbatim>\<open>state.leads\<close>, \<^verbatim>\<open>state.opportunities\<close>) is the one its closure
  captured when it was invoked; the dispatched actions are applied by the reducer in
  order.
\<close>

datatype event = Dispatch action | SimulatedCall nat

fun apply_event :: "state \<Rightarrow> event \<Rightarrow> state" where
  "apply_event s (Dispatch a) = appReducer s a"
| "apply_event s (SimulatedCall ms) = s"

definition exec :: "state \<Rightarrow> event list \<Rightarrow> state" where
  "exec s evs = foldl apply_event s evs"

fun is_call :: "event \<Rightarrow> bool" where
  "is_call (SimulatedCall ms) = True"
| "is_call (Dispatch a) = False"

definition simulated_calls :: "event list \<Rightarrow> nat" where
  "simulated_calls evs = length (filter is_call evs)"

text \<open>
  What the operations take from the JavaScript runtime: the values \<^verbatim>\<open>Math.random()\<close>
  returns for the two simulated calls (\<open>random1\<close> decides the conversion call,
  \<open>random3\<close> the status update), the value of \<^verbatim>\<open>Math.floor(Math.random() * 50000)\<close>,
  which the runtime computes in double arithmetic (\<open>flooredDraw\<close>), the values of
  \<^verbatim>\<open>Date.now()\<close>, the identifier \<^verbatim>\<open>uuidv4()\<close> returns, the decimal rendering of a
  number in a template literal, and \<^verbatim>\<open>new Date(ms).toISOString().split('T')[0]\<close>.
\<close>

record runtime =
  random1 :: real
  flooredDraw :: int
  random3 :: real
  dateNow1 :: int
  dateNow2 :: int
  uuidv4 :: string
  numberToString :: "int \<Rightarrow> string"
  isoDay :: "int \<Rightarrow> string"

text \<open>
  The message of the not-found branch of \<^verbatim>\<open>updateLead\<close>, which is in Portuguese; its
  seventh character is U+00E3, an a with a tilde.
\<close>

definition lead_nao_encontrado :: string where
  "lead_nao_encontrado = ''Lead n'' @ [CHR 0xE3] @ ''o encontrado''"

text \<open>
  \<^verbatim>\<open>updateLead(leadId, updates, { optimistic })\<close>, with \<open>r\<close> the value of \<^verbatim>\<open>Math.random()\<close>
  drawn when the 1000 ms timer fires.
\<close>

definition updateLead :: "state \<Rightarrow> real \<Rightarrow> string \<Rightarrow> lead_updates \<Rightarrow> bool \<Rightarrow> event list" where
  "updateLead s r i updates optimistic =
     (case find (\<lambda>l. lead_id l = i) (leads s) of
        None \<Rightarrow> [Dispatch (SET_ERROR (Some lead_nao_encontrado))]
      | Some originalLead \<Rightarrow>
          (if optimistic then [Dispatch (UPDATE_LEAD i updates)] else [])
          @ [SimulatedCall 1000]
          @ (if r < 1 / 10
             then (if optimistic then [Dispatch (UPDATE_LEAD_ROLLBACK i originalLead)] else [])
                  @ [Dispatch (SET_ERROR (Some ''Lead upgrade failed''))]
             else (if \<not> optimistic then [Dispatch (UPDATE_LEAD i updates)] else [])))"

text \<open>\<^verbatim>\<open>addOpportunity(opportunity)\<close>: the id is replaced by a fresh UUID.\<close>

definition addOpportunity :: "string \<Rightarrow> opportunity \<Rightarrow> event list" where
  "addOpportunity uuid opp = [Dispatch (ADD_OPPORTUNITY (opp\<lparr>opp_id := uuid\<rparr>))]"

text \<open>The object literal built in \<^verbatim>\<open>convertLeadToOpportunity\<close>.\<close>

definition new_opportunity :: "runtime \<Rightarrow> lead \<Rightarrow> string \<Rightarrow> opportunity" where
  "new_opportunity rt l i =
     \<lparr> opp_id = ''opp-'' @ numberToString rt (dateNow1 rt),
       opp_name = company l @ '' - Sales Opportunity'',
       stage = ''qualification'',
       amount = flooredDraw rt + 20000,
       accountName = company l,
       leadId = i,
       probability = score l,
       expectedCloseDate = isoDay rt (dateNow2 rt + 30 * 24 * 60 * 60 * 1000) \<rparr>"

definition no_updates :: lead_updates where
  "no_updates =
     \<lparr> u_id = None, u_name = None, u_company = None, u_email = None,
       u_source = None, u_score = None, u_status = None \<rparr>"

definition convertLeadToOpportunity :: "state \<Rightarrow> runtime \<Rightarrow> string \<Rightarrow> event list" where
  "convertLeadToOpportunity s rt i =
     (case find (\<lambda>l. lead_id l = i) (leads s) of
        None \<Rightarrow> [Dispatch (SET_ERROR (Some ''Lead not found''))]
      | Some l \<Rightarrow>
          (case find (\<lambda>opp. leadId opp = i) (opportunities s) of
             Some existingOpportunity \<Rightarrow>
               [Dispatch (SET_ERROR (Some ''Lead already converted into opportunity''))]
           | None \<Rightarrow>
               [Dispatch (SET_LOADING True), SimulatedCall 1500]
               @ (if random1 rt < 5 / 100
                  then [Dispatch (SET_ERROR (Some ''Failed to convert lead'')),
                        Dispatch (SET_LOADING False)]
                  else addOpportunity (uuidv4 rt) (new_opportunity rt l i)
                       @ updateLead s (random3 rt) i
                           (no_updates\<lparr>u_status := Some ''qualified''\<rparr>) False
                       @ [Dispatch (SET_LOADING False)])))"

text \<open>\<^verbatim>\<open>setSelectedLead\<close>, \<^verbatim>\<open>clearError\<close>: one dispatch each.\<close>

definition setSelectedLead :: "lead option \<Rightarrow> event list" where
  "setSelectedLead l = [Dispatch (SET_SELECTED_LEAD l)]"

definition clearError :: "event list" where
  "clearError = [Dispatch CLEAR_ERROR]"

text \<open>The state the provider starts from, given the criteria read from storage.\<close>

definition providerInitialState :: "filters \<Rightarrow> state" where
  "providerInitialState f =
     \<lparr> leads = [], opportunities = [], selectedLead = None, isLoading = False,
       error = None, filters = f, liveMessage = None \<rparr>"

text \<open>
  The state that is visible while the first simulated call of a run is pending: the one
  reached by the dispatches made before it.
\<close>

definition state_at_call :: "state \<Rightarrow> event list \<Rightarrow> state" where
  "state_at_call s evs = exec s (takeWhile (\<lambda>e. \<not> is_call e) evs)"

section \<open>Schedules of operations\<close>

text \<open>
  What a consumer of the context (and the provider's own loading effects) can do to the
  store: have the reducer apply an action, or invoke \<^verbatim>\<open>updateLead\<close>,
  \<^verbatim>\<open>convertLeadToOpportunity\<close> or \<^verbatim>\<open>addOpportunity\<close>.
\<close>

datatype operation =
    Reduce action
  | UpdateRecord real string lead_updates bool
  | Convert runtime string
  | AddOpportunity string opportunity

text \<open>
  The callbacks that a component gets from the context are closures made in a render:
  \<^verbatim>\<open>updateLead\<close> and \<^verbatim>\<open>convertLeadToOpportunity\<close> read the collections of that render,
  whatever has been dispatched since (the dependency lists of \<^verbatim>\<open>useCallback\<close> name every
  part of the state that a callback reads, so the callbacks of a render read the state
  of that render).  \<open>trace_of s\<close> is the run of an operation whose callback has captured the
  state \<open>s\<close>.
\<close>

fun trace_of :: "state \<Rightarrow> operation \<Rightarrow> event list" where
  "trace_of s (Reduce a) = [Dispatch a]"
| "trace_of s (UpdateRecord r i updates optimistic) = updateLead s r i updates optimistic"
| "trace_of s (Convert rt i) = convertLeadToOpportunity s rt i"
| "trace_of s (AddOpportunity uuid opp) = addOpportunity uuid opp"

text \<open>
  An asynchronous operation runs up to its first simulated call when it is invoked; what
  follows the call waits until the call's timer fires, and other operations can be
  invoked or resumed in between.  Its dispatches go to the reducer, which applies them
  to the current state.  A session is the current state, the states of the renders so
  far (the first is the mount) and the continuations that wait.  A schedule invokes
  operations through the callbacks of any render so far (\<open>Invoke n\<close>: of render \<open>n\<close>; a
  render that has not happened has no callbacks, and the step does nothing), resumes
  continuations and renders the current state, in any order; so every order in which
  the timers can fire, and every callback that a component can still hold, is among the
  schedules.
\<close>

definition after_call :: "event list \<Rightarrow> event list" where
  "after_call evs = drop 1 (dropWhile (\<lambda>e. \<not> is_call e) evs)"

record session =
  current :: state
  renders :: "state list"
  pending :: "event list list"

datatype step = Invoke nat operation | Resume nat | Render

fun run_step :: "session \<Rightarrow> step \<Rightarrow> session" where
  "run_step sc (Invoke n op) =
     (if n < length (renders sc)
      then (let tr = trace_of (renders sc ! n) op in
            sc\<lparr> current := state_at_call (current sc) tr,
                pending := (if list_ex is_call tr then pending sc @ [after_call tr]
                            else pending sc) \<rparr>)
      else sc)"
| "run_step sc (Resume k) =
     (if k < length (pending sc)
      then (let tr = pending sc ! k in
            sc\<lparr> current := state_at_call (current sc) tr,
                pending := (pending sc)[k := after_call tr] \<rparr>)
      else sc)"
| "run_step sc Render = sc\<lparr> renders := renders sc @ [current sc] \<rparr>"

definition run_schedule :: "session \<Rightarrow> step list \<Rightarrow> session" where
  "run_schedule sc steps = foldl run_step sc steps"

definition start :: "filters \<Rightarrow> session" where
  "start f =
     \<lparr> current = providerInitialState f, renders = [providerInitialState f], pending = [] \<rparr>"

text \<open>At most one Opportunity for each back-reference.\<close>

definition one_opportunity_per_lead :: "state \<Rightarrow> bool" where
  "one_opportunity_per_lead s = distinct (map leadId (opportunities s))"

text \<open>The back-references of the Opportunities that waiting continuations are going to append.\<close>

fun event_adds :: "event \<Rightarrow> string list" where
  "event_adds (Dispatch (ADD_OPPORTUNITY opp)) = [leadId opp]"
| "event_adds e = []"

definition trace_adds :: "event list \<Rightarrow> string list" where
  "trace_adds tr = concat (map event_adds tr)"

definition pending_adds :: "event list list \<Rightarrow> string list" where
  "pending_adds pend = concat (map trace_adds pend)"

text \<open>A lead is converted in a state that holds an Opportunity with its back-reference.\<close>

definition converted :: "state \<Rightarrow> string \<Rightarrow> bool" where
  "converted s i \<longleftrightarrow> i \<in> set (map leadId (opportunities s))"

text \<open>
  The steps under which the conversion workflow keeps its guarantee: no raw append
  (\<^verbatim>\<open>ADD_OPPORTUNITY\<close>, \<^verbatim>\<open>addOpportunity\<close>); no bulk replacement whose payload repeats a
  back-reference or holds one that a waiting conversion is going to append; and no
  conversion of a lead while an earlier conversion of the same lead has yet to append
  its Opportunity, or through a callback of a render that is older than the lead's
  Opportunity.
\<close>

fun allowed_action :: "string list \<Rightarrow> action \<Rightarrow> bool" where
  "allowed_action adds (ADD_OPPORTUNITY payload) = False"
| "allowed_action adds (SET_OPPORTUNITIES payload) = distinct (map leadId payload @ adds)"
| "allowed_action adds a = True"

fun allowed :: "session \<Rightarrow> step \<Rightarrow> bool" where
  "allowed sc (Invoke n (Reduce a)) = allowed_action (pending_adds (pending sc)) a"
| "allowed sc (Invoke n (AddOpportunity uuid opp)) = False"
| "allowed sc (Invoke n (UpdateRecord r i updates optimistic)) = True"
| "allowed sc (Invoke n (Convert rt i)) =
     (n < length (renders sc)
      \<and> i \<notin> set (pending_adds (pending sc))
      \<and> (converted (current sc) i \<longrightarrow> converted (renders sc ! n) i))"
| "allowed sc (Resume k) = True"
| "allowed sc Render = True"

fun allowed_run :: "session \<Rightarrow> step list \<Rightarrow> bool" where
  "allowed_run sc [] = True"
| "allowed_run sc (st # sts) = (allowed sc st \<and> allowed_run (run_step sc st) sts)"

text \<open>
  What the steps keep: the back-references already stored and those still to be
  appended are pairwise different, and no waiting continuation replaces the collection.
\<close>

fun is_bulk :: "event \<Rightarrow> bool" where
  "is_bulk (Dispatch (SET_OPPORTUNITIES payload)) = True"
| "is_bulk e = False"

definition no_bulk :: "event list \<Rightarrow> bool" where
  "no_bulk tr = list_all (\<lambda>e. \<not> is_bulk e) tr"

definition unique_with_pending :: "session \<Rightarrow> bool" where
  "unique_with_pending sc \<longleftrightarrow>
     distinct (map leadId (opportunities (current sc)) @ pending_adds (pending sc))
     \<and> list_all no_bulk (pending sc)"

section \<open>Durable filter storage\<close>

text \<open>
  \<^verbatim>\<open>localStorage\<close> is a map from keys to strings; \<^verbatim>\<open>getItem\<close> of an absent key is null.
\<close>

definition STORAGE_KEYS_FILTERS :: string where
  "STORAGE_KEYS_FILTERS = ''seller_console_filters''"

type_synonym storage = "string \<Rightarrow> string option"

text \<open>
  The values of JSON: what \<^verbatim>\<open>JSON.parse\<close> can return.  An object is the list of its
  members in their order.
\<close>

datatype json =
    J_null
  | J_bool bool
  | J_num real
  | J_str string
  | J_arr "json list"
  | J_obj "(string \<times> json) list"

text \<open>
  \<^verbatim>\<open>JSON.parse\<close> and \<^verbatim>\<open>JSON.stringify\<close> belong to the runtime and are parameters;
  \<open>JSON_parse\<close> is \<open>None\<close> where \<^verbatim>\<open>JSON.parse\<close> throws.
\<close>

record json_api =
  JSON_parse :: "string \<Rightarrow> json option"
  JSON_stringify :: "json \<Rightarrow> string"

text \<open>Criteria as a JavaScript object: the four properties in the order of the literal.\<close>

definition criteria_object :: "filters \<Rightarrow> json" where
  "criteria_object f =
     J_obj [(''search'', J_str (search f)),
            (''status'', J_str (status_f f)),
            (''sortBy'', J_str (sortBy f)),
            (''sortOrder'', J_str (sortOrder f))]"

text \<open>The criteria the store falls back to.\<close>

definition default_filters :: filters where
  "default_filters = \<lparr> search = '''', status_f = ''all'', sortBy = ''score'', sortOrder = ''desc'' \<rparr>"

text \<open>
  \<^verbatim>\<open>loadFiltersFromStorage\<close>: an absent entry and the empty string are falsy and skip the
  parse; an exception of \<^verbatim>\<open>getItem\<close> or of the parse is caught; these ways end in the
  default object.  Whatever the parse returns is returned as it is, and the provider
  makes the returned value the \<^verbatim>\<open>filters\<close> of its initial state.
\<close>

definition loadFiltersFromStorage :: "json_api \<Rightarrow> bool \<Rightarrow> storage \<Rightarrow> json" where
  "loadFiltersFromStorage env getItem_throws st =
     (if getItem_throws then criteria_object default_filters
      else (case st STORAGE_KEYS_FILTERS of
              None \<Rightarrow> criteria_object default_filters
            | Some saved \<Rightarrow>
                (if saved \<noteq> []
                 then (case JSON_parse env saved of
                         Some parsed \<Rightarrow> parsed
                       | None \<Rightarrow> criteria_object default_filters)
                 else criteria_object default_filters)))"

text \<open>
  \<^verbatim>\<open>setFilters(filters)\<close>: merges, writes the merged criteria to storage (an exception of
  \<^verbatim>\<open>setItem\<close> is caught and leaves the storage as it was) and dispatches them.
\<close>

definition setFilters ::
  "json_api \<Rightarrow> bool \<Rightarrow> state \<Rightarrow> storage \<Rightarrow> filters_updates \<Rightarrow> storage \<times> event list" where
  "setFilters env setItem_throws s st partial =
     (let newFilters = spread_filters (filters s) partial;
          st' = (if setItem_throws then st
                 else st(STORAGE_KEYS_FILTERS \<mapsto> JSON_stringify env (criteria_object newFilters)))
      in (st', [Dispatch (SET_FILTERS (all_of newFilters))]))"

section \<open>The derived view of the leads list\<close>

text \<open>
  \<^verbatim>\<open>a[filters.sortBy]\<close>: the value of a property chosen by name.  The text properties are
  strings, the score is a number, any other name gives \<^verbatim>\<open>undefined\<close>.
\<close>

datatype jsval = JString string | JNumber int | JUndefined

definition get_property :: "lead \<Rightarrow> string \<Rightarrow> jsval" where
  "get_property l k =
     (if k = ''id'' then JString (lead_id l)
      else if k = ''name'' then JString (name l)
      else if k = ''company'' then JString (company l)
      else if k = ''email'' then JString (email l)
      else if k = ''source'' then JString (source l)
      else if k = ''score'' then JNumber (score l)
      else if k = ''status'' then JString (status l)
      else JUndefined)"

text \<open>
  \<^verbatim>\<open>String.prototype.toLowerCase\<close> and \<^verbatim>\<open>String.prototype.localeCompare\<close> belong to the
  runtime and its locale and are parameters.
\<close>

record string_ops =
  toLowerCase :: "string \<Rightarrow> string"
  localeCompare :: "string \<Rightarrow> string \<Rightarrow> int"

text \<open>\<^verbatim>\<open>s.includes(t)\<close>: \<open>t\<close> occurs in \<open>s\<close> as a contiguous piece.\<close>

definition str_includes :: "string \<Rightarrow> string \<Rightarrow> bool" where
  "str_includes s t = sublist t s"

text \<open>
  \<^verbatim>\<open>x - y\<close> on property values; \<open>None\<close> is NaN.  Both operands are the same property of
  two leads, so a string never meets a number here.
\<close>

fun js_minus :: "jsval \<Rightarrow> jsval \<Rightarrow> int option" where
  "js_minus (JNumber x) (JNumber y) = Some (x - y)"
| "js_minus x y = None"

text \<open>The comparison function handed to \<^verbatim>\<open>sort\<close>.\<close>

definition compareFn :: "string_ops \<Rightarrow> filters \<Rightarrow> lead \<Rightarrow> lead \<Rightarrow> int option" where
  "compareFn env f a b =
     (let aValue = get_property a (sortBy f); bValue = get_property b (sortBy f) in
      case (aValue, bValue) of
        (JString x, JString y) \<Rightarrow>
          (if sortOrder f = ''desc'' then Some (localeCompare env y x)
           else Some (localeCompare env x y))
      | _ \<Rightarrow>
          (if sortOrder f = ''desc'' then js_minus bValue aValue
           else js_minus aValue bValue))"

text \<open>
  \<^verbatim>\<open>Array.prototype.sort\<close> reads a NaN result as \<open>0\<close>.  It is stable, and for a consistent
  comparison function its result is the one of any stable sorting algorithm; insertion
  from the right is taken here.
\<close>

fun sort_compare :: "int option \<Rightarrow> int" where
  "sort_compare None = 0"
| "sort_compare (Some v) = v"

fun insert_by :: "('a \<Rightarrow> 'a \<Rightarrow> int) \<Rightarrow> 'a \<Rightarrow> 'a list \<Rightarrow> 'a list" where
  "insert_by c x [] = [x]"
| "insert_by c x (y # ys) = (if c x y \<le> 0 then x # y # ys else y # insert_by c x ys)"

definition sort_by :: "('a \<Rightarrow> 'a \<Rightarrow> int) \<Rightarrow> 'a list \<Rightarrow> 'a list" where
  "sort_by c xs = foldr (insert_by c) xs []"

text \<open>
  Arrays live in a store, addressed by position; their elements are references to lead
  objects.  The spread \<^verbatim>\<open>[...leads]\<close> and \<^verbatim>\<open>filter\<close> allocate a new array, \<^verbatim>\<open>sort\<close>
  writes the array it is called on.
\<close>

type_synonym ref = nat

type_synonym arrays = "ref list list"

definition new_array :: "arrays \<Rightarrow> ref list \<Rightarrow> arrays \<times> nat" where
  "new_array h xs = (h @ [xs], length h)"

definition array_spread :: "arrays \<Rightarrow> nat \<Rightarrow> arrays \<times> nat" where
  "array_spread h a = new_array h (h ! a)"

definition array_filter :: "arrays \<Rightarrow> nat \<Rightarrow> (ref \<Rightarrow> bool) \<Rightarrow> arrays \<times> nat" where
  "array_filter h a p = new_array h (filter p (h ! a))"

definition array_sort :: "arrays \<Rightarrow> nat \<Rightarrow> (ref \<Rightarrow> ref \<Rightarrow> int) \<Rightarrow> arrays" where
  "array_sort h a c = h[a := sort_by c (h ! a)]"

text \<open>
  The body of the \<^verbatim>\<open>filteredLeads\<close> memo of \<^verbatim>\<open>LeadsList\<close>: \<open>obj\<close> gives the lead object
  behind a reference, \<open>leadsRef\<close> is the address of \<^verbatim>\<open>leads\<close>; the result is the store
  afterwards and the address of the returned array.
\<close>

definition filteredLeads ::
  "string_ops \<Rightarrow> (ref \<Rightarrow> lead) \<Rightarrow> arrays \<Rightarrow> nat \<Rightarrow> filters \<Rightarrow> arrays \<times> nat" where
  "filteredLeads env obj h leadsRef f =
     (let (h1, filtered) = array_spread h leadsRef;
          (h2, filtered) =
            (if search f \<noteq> []
             then (let searchLower = toLowerCase env (search f) in
                   array_filter h1 filtered
                     (\<lambda>r. str_includes (toLowerCase env (name (obj r))) searchLower
                        \<or> str_includes (toLowerCase env (company (obj r))) searchLower))
             else (h1, filtered));
          (h3, filtered) =
            (if status_f f \<noteq> ''all''
             then array_filter h2 filtered (\<lambda>r. status (obj r) = status_f f)
             else (h2, filtered));
          h4 = array_sort h3 filtered (\<lambda>a b. sort_compare (compareFn env f (obj a) (obj b)))
      in (h4, filtered))"

definition view_of :: "arrays \<times> nat \<Rightarrow> ref list" where
  "view_of res = fst res ! snd res"

text \<open>
  The view as the specification words it: the leads that pass the search and the status
  filter, in the order of the sort key (text by locale comparison, numbers by
  difference, the direction flipping the comparison), leads with equal keys in their
  original order.
\<close>

definition in_view :: "string_ops \<Rightarrow> filters \<Rightarrow> lead \<Rightarrow> bool" where
  "in_view env f l \<longleftrightarrow>
     (search f = []
      \<or> str_includes (toLowerCase env (name l)) (toLowerCase env (search f))
      \<or> str_includes (toLowerCase env (company l)) (toLowerCase env (search f)))
     \<and> (status_f f = ''all'' \<or> status l = status_f f)"

definition key_compare :: "string_ops \<Rightarrow> string \<Rightarrow> lead \<Rightarrow> lead \<Rightarrow> int" where
  "key_compare env k a b =
     (case (get_property a k, get_property b k) of
        (JString x, JString y) \<Rightarrow> localeCompare env x y
      | (JNumber x, JNumber y) \<Rightarrow> x - y
      | _ \<Rightarrow> 0)"

definition ordered :: "string_ops \<Rightarrow> filters \<Rightarrow> lead \<Rightarrow> lead \<Rightarrow> bool" where
  "ordered env f a b \<longleftrightarrow>
     (if sortOrder f = ''desc'' then key_compare env (sortBy f) b a \<le> 0
      else key_compare env (sortBy f) a b \<le> 0)"

definition same_key :: "string_ops \<Rightarrow> filters \<Rightarrow> lead \<Rightarrow> lead \<Rightarrow> bool" where
  "same_key env f a b \<longleftrightarrow> key_compare env (sortBy f) a b = 0"

text \<open>A consistent comparison function, as \<^verbatim>\<open>sort\<close> requires it.\<close>

definition consistent :: "('a \<Rightarrow> 'a \<Rightarrow> int) \<Rightarrow> bool" where
  "consistent c \<longleftrightarrow>
     (\<forall>x. c x x = 0) \<and> (\<forall>x y. c x y < 0 \<longleftrightarrow> 0 < c y x)
     \<and> (\<forall>x y z. c x y \<le> 0 \<longrightarrow> c y z \<le> 0 \<longrightarrow> c x z \<le> 0)"

section \<open>The error timer\<close>







section \<open>Example data\<close>

text \<open>Leads and an Opportunity as the JSON sources would hold them, and states built of them.\<close>

definition elizabeth :: lead where
  "elizabeth =
     \<lparr> lead_id = ''1'', name = ''Elizabeth Bennet'', company = ''Pride and Prejudice Ltd'',
       email = ''elizabeth@prideandprejudice.com'', source = ''Website'', score = 95,
       status = ''new'' \<rparr>"

definition sample_opportunity :: opportunity where
  "sample_opportunity =
     \<lparr> opp_id = ''opp-1'', opp_name = ''Pride and Prejudice Ltd - Sales Opportunity'',
       stage = ''qualification'', amount = 25000, accountName = ''Pride and Prejudice Ltd'',
       leadId = ''1'', probability = 95, expectedCloseDate = ''2023-12-14'' \<rparr>"

definition loaded_state :: state where
  "loaded_state = (providerInitialState default_filters)\<lparr>leads := [elizabeth]\<rparr>"

definition selected_state :: state where
  "selected_state = loaded_state\<lparr>selectedLead := Some elizabeth\<rparr>"

definition stale_selection_state :: state where
  "stale_selection_state =
     loaded_state\<lparr>selectedLead := Some (elizabeth\<lparr>name := ''Lizzy''\<rparr>)\<rparr>"

definition converted_state :: state where
  "converted_state = loaded_state\<lparr>opportunities := [sample_opportunity]\<rparr>"

definition busy_state :: state where
  "busy_state =
     (providerInitialState default_filters)
       \<lparr>opportunities := [sample_opportunity], isLoading := True\<rparr>"

text \<open>
  Two runs of the runtime: one in which no simulated call fails, and one in which the
  status update does.
\<close>

definition calm_runtime :: runtime where
  "calm_runtime =
     \<lparr> random1 = 9 / 10, flooredDraw = 45000, random3 = 9 / 10,
       dateNow1 = 1700000000000, dateNow2 = 1700000000000,
       uuidv4 = ''u-1'', numberToString = (\<lambda>n. ''1700000000000''),
       isoDay = (\<lambda>ms. ''2023-12-14'') \<rparr>"

definition second_runtime :: runtime where
  "second_runtime = calm_runtime\<lparr>uuidv4 := ''u-2''\<rparr>"

definition stormy_runtime :: runtime where
  "stormy_runtime = calm_runtime\<lparr>random3 := 1 / 20\<rparr>"

definition contacted :: lead_updates where
  "contacted = no_updates\<lparr>u_status := Some ''contacted''\<rparr>"

definition fitzwilliam :: lead where
  "fitzwilliam =
     \<lparr> lead_id = ''2'', name = ''Fitzwilliam Darcy'', company = ''Pemberley Estates'',
       email = ''darcy@pemberley.com'', source = ''Referral'', score = 88,
       status = ''contacted'' \<rparr>"

definition charles :: lead where
  "charles =
     \<lparr> lead_id = ''3'', name = ''Charles Bingley'', company = ''Netherfield Park'',
       email = ''charles@netherfield.com'', source = ''Website'', score = 95,
       status = ''new'' \<rparr>"

definition caroline :: lead where
  "caroline =
     \<lparr> lead_id = ''4'', name = ''Caroline Bingley'', company = ''Netherfield Park'',
       email = ''caroline@netherfield.com'', source = ''Event'', score = 95,
       status = ''new'' \<rparr>"

text \<open>Four lead objects behind the references 0 to 3, and a store holding one array of them.\<close>

definition sample_objects :: "ref \<Rightarrow> lead" where
  "sample_objects r =
     (if r = 0 then elizabeth else if r = 1 then fitzwilliam
      else if r = 2 then charles else caroline)"

definition sample_array :: "ref list" where
  "sample_array = [0, 1, 2, 3]"

definition sample_heap :: arrays where
  "sample_heap = [sample_array]"

text \<open>
  String operations for the examples: lower-casing of the letters A to Z, and comparison
  by code points.
\<close>

definition ascii_lower :: "string \<Rightarrow> string" where
  "ascii_lower s =
     map (\<lambda>c. if 65 \<le> (of_char c :: nat) \<and> (of_char c :: nat) \<le> 90
               then char_of ((of_char c :: nat) + 32) else c) s"

definition codepoint_compare :: "string \<Rightarrow> string \<Rightarrow> int" where
  "codepoint_compare x y = (if x = y then 0 else if x < y then - 1 else 1)"

definition sample_ops :: string_ops where
  "sample_ops = \<lparr> toLowerCase = ascii_lower, localeCompare = codepoint_compare \<rparr>"

definition sample_criteria :: filters where
  "sample_criteria =
     \<lparr> search = ''IN'', status_f = ''new'', sortBy = ''score'', sortOrder = ''desc'' \<rparr>"

text \<open>
  A stand-in for the two JSON functions in the examples.  It writes and reads \<^verbatim>\<open>null\<close> and
  the objects whose members are strings, in the notation of JSON without white
  space, for strings that hold no quotation mark and no backslash; it rejects every
  other text.
\<close>

definition quoted :: "string \<Rightarrow> string" where
  "quoted t = CHR 0x22 # t @ [CHR 0x22]"

fun member_text :: "string \<times> json \<Rightarrow> string" where
  "member_text (k, J_str v) = quoted k @ '':'' @ quoted v"
| "member_text (k, j) = quoted k @ '':null''"

fun join_comma :: "string list \<Rightarrow> string" where
  "join_comma [] = []"
| "join_comma [t] = t"
| "join_comma (t # u # ts) = t @ '','' @ join_comma (u # ts)"

fun mini_stringify :: "json \<Rightarrow> string" where
  "mini_stringify (J_obj kvs) = ''{'' @ join_comma (map member_text kvs) @ ''}''"
| "mini_stringify j = ''null''"

text \<open>The pieces of a text between its quotation marks.\<close>

fun split_quote :: "string \<Rightarrow> string list" where
  "split_quote [] = [[]]"
| "split_quote (c # cs) =
     (if c = CHR 0x22 then [] # split_quote cs
      else (case split_quote cs of
              [] \<Rightarrow> [[c]]
            | w # ws \<Rightarrow> (c # w) # ws))"

fun read_members :: "string list \<Rightarrow> (string \<times> json) list option" where
  "read_members (k # c # v # e # rest) =
     (if c \<noteq> '':'' then None
      else if e = ''}'' \<and> rest = [] then Some [(k, J_str v)]
      else if e = '','' then map_option ((#) (k, J_str v)) (read_members rest)
      else None)"
| "read_members toks = None"

definition mini_parse :: "string \<Rightarrow> json option" where
  "mini_parse t =
     (if t = ''null'' then Some J_null
      else (case split_quote t of
              [] \<Rightarrow> None
            | h # toks \<Rightarrow> if h = ''{'' then map_option J_obj (read_members toks) else None))"

definition mini_json :: json_api where
  "mini_json = \<lparr> JSON_parse = mini_parse, JSON_stringify = mini_stringify \<rparr>"

definition saved_search :: filters where
  "saved_search = \<lparr> search = ''test'', status_f = ''all'', sortBy = ''score'', sortOrder = ''desc'' \<rparr>"

text \<open>Stored texts: a search term alone, and a text that is no JSON.\<close>

definition search_only_text :: string where
  "search_only_text = ''{'' @ quoted ''search'' @ '':'' @ quoted ''x'' @ ''}''"

definition broken_text :: string where
  "broken_text = ''{oops''"

definition search_test :: filters_updates where
  "search_test = \<lparr> u_search = Some ''test'', u_status_f = None, u_sortBy = None, u_sortOrder = None \<rparr>"

text \<open>
  Schedules.  Two conversions of one lead, the second invoked after the first has
  appended its Opportunity and the component has rendered; the same two conversions,
  both invoked before either simulated call returns; the same two conversions in turn,
  but both through the callback of the render before the first; two raw appends; a bulk
  load that repeats a back-reference; and a bulk load that arrives while a conversion
  waits.
\<close>

definition convert_twice_in_turn :: "step list" where
  "convert_twice_in_turn =
     [Invoke 0 (Reduce (SET_LEADS [elizabeth])), Render,
      Invoke 1 (Convert calm_runtime ''1''), Resume 0, Render,
      Invoke 2 (Convert second_runtime ''1''), Resume 0]"

definition convert_twice_overlapping :: "step list" where
  "convert_twice_overlapping =
     [Invoke 0 (Reduce (SET_LEADS [elizabeth])), Render,
      Invoke 1 (Convert calm_runtime ''1''), Invoke 1 (Convert second_runtime ''1''),
      Resume 0, Resume 1, Resume 0, Resume 1]"

definition convert_twice_stale :: "step list" where
  "convert_twice_stale =
     [Invoke 0 (Reduce (SET_LEADS [elizabeth])), Render,
      Invoke 1 (Convert calm_runtime ''1''), Resume 0, Resume 0, Render,
      Invoke 1 (Convert second_runtime ''1''), Resume 1, Resume 1]"

definition add_twice :: "step list" where
  "add_twice =
     [Invoke 0 (AddOpportunity ''u-1'' sample_opportunity),
      Invoke 0 (AddOpportunity ''u-2'' sample_opportunity)]"

definition load_repeated :: "step list" where
  "load_repeated = [Invoke 0 (Reduce (SET_OPPORTUNITIES [sample_opportunity, sample_opportunity]))]"

definition load_during_conversion :: "step list" where
  "load_during_conversion =
     [Invoke 0 (Reduce (SET_LEADS [elizabeth])), Render,
      Invoke 1 (Convert calm_runtime ''1''),
      Invoke 0 (Reduce (SET_OPPORTUNITIES [sample_opportunity])),
      Resume 0, Resume 0]"







text \<open>
  A state in which the conversion of another lead is in flight, and updates that assign
  a new id.
\<close>

definition converting_state :: state where
  "converting_state =
     (providerInitialState default_filters)
       \<lparr>leads := [elizabeth, fitzwilliam], opportunities := [sample_opportunity],
        isLoading := True\<rparr>"

definition renumbered :: lead_updates where
  "renumbered = contacted\<lparr>u_id := Some ''9''\<rparr>"

section \<open>Basic facts about runs\<close>

lemma exec_Nil [simp]: "exec s [] = s"
  by (simp add: exec_def)

lemma exec_Cons [simp]: "exec s (e # evs) = exec (apply_event s e) evs"
  by (simp add: exec_def)

lemma exec_append: "exec s (xs @ ys) = exec (exec s xs) ys"
  by (simp add: exec_def)

lemma convert_trace_success:
  assumes "find (\<lambda>l. lead_id l = i) (leads s) = Some l"
    and "find (\<lambda>opp. leadId opp = i) (opportunities s) = None"
    and "\<not> random1 rt < 5 / 100"
  shows "convertLeadToOpportunity s rt i =
     [Dispatch (SET_LOADING True), SimulatedCall 1500,
      Dispatch (ADD_OPPORTUNITY ((new_opportunity rt l i)\<lparr>opp_id := uuidv4 rt\<rparr>)),
      SimulatedCall 1000]
     @ (if random3 rt < 1 / 10 then [Dispatch (SET_ERROR (Some ''Lead upgrade failed''))]
        else [Dispatch (UPDATE_LEAD i (no_updates\<lparr>u_status := Some ''qualified''\<rparr>))])
     @ [Dispatch (SET_LOADING False)]"
  using assms by (simp add: convertLeadToOpportunity_def addOpportunity_def updateLead_def)

lemma lead_id_spread:
  "u_id updates = None \<Longrightarrow> lead_id (spread_lead l updates) = lead_id l"
  by (simp add: spread_lead_def)

lemma rollback_after_update:
  assumes "u_id updates = None"
  shows "map (\<lambda>l. if lead_id l = i then orig else l)
           (map (\<lambda>l. if lead_id l = i then spread_lead l updates else l) xs)
         = map (\<lambda>l. if lead_id l = i then orig else l) xs"
  using assms by (induction xs) (simp_all add: lead_id_spread)

lemma unique_id_restored:
  assumes "find (\<lambda>l. lead_id l = i) xs = Some orig" and "distinct (map lead_id xs)"
  shows "map (\<lambda>l. if lead_id l = i then orig else l) xs = xs"
proof -
  from assms(1) have o: "orig \<in> set xs" "lead_id orig = i"
    by (auto simp: find_Some_iff)
  from assms(2) have inj: "inj_on lead_id (set xs)"
    by (simp add: distinct_map)
  have "(if lead_id l = i then orig else l) = l" if "l \<in> set xs" for l
    using that o inj by (auto dest: inj_onD)
  then show ?thesis
    by (simp add: map_idI)
qed

section \<open>Frame of the set-error transition\<close>

text \<open>
  C10.  For every state and every payload (a message or null), the set-error transition
  yields a state whose error is the payload and whose loading flag is false; the record
  collection, the Opportunity collection, the selection, the filter criteria and the
  announcement are those of the state before.
\<close>

theorem set_error_frame:
  "error (appReducer s (SET_ERROR payload)) = payload
   \<and> isLoading (appReducer s (SET_ERROR payload)) = False
   \<and> leads (appReducer s (SET_ERROR payload)) = leads s
   \<and> opportunities (appReducer s (SET_ERROR payload)) = opportunities s
   \<and> selectedLead (appReducer s (SET_ERROR payload)) = selectedLead s
   \<and> filters (appReducer s (SET_ERROR payload)) = filters s
   \<and> liveMessage (appReducer s (SET_ERROR payload)) = liveMessage s
   \<and> appReducer s (SET_ERROR payload) = s\<lparr>error := payload, isLoading := False\<rparr>"
  by simp

section \<open>Updating a record that does not exist\<close>

text \<open>
  C9.  For every state and every id that matches no record of the collection,
  \<^verbatim>\<open>updateLead\<close> (optimistic or not) makes one dispatch, the not-found error, and no
  simulated call; afterwards the current error is the not-found message and the record
  collection, the Opportunity collection and the selected record are unchanged.
\<close>

theorem update_unknown_id:
  assumes "i \<notin> set (map lead_id (leads s))"
  shows "updateLead s r i updates optimistic = [Dispatch (SET_ERROR (Some lead_nao_encontrado))]
    \<and> simulated_calls (updateLead s r i updates optimistic) = 0
    \<and> error (exec s (updateLead s r i updates optimistic)) = Some lead_nao_encontrado
    \<and> leads (exec s (updateLead s r i updates optimistic)) = leads s
    \<and> opportunities (exec s (updateLead s r i updates optimistic)) = opportunities s
    \<and> selectedLead (exec s (updateLead s r i updates optimistic)) = selectedLead s"
proof -
  from assms have "find (\<lambda>l. lead_id l = i) (leads s) = None"
    by (auto simp: find_None_iff)
  then have tr: "updateLead s r i updates optimistic = [Dispatch (SET_ERROR (Some lead_nao_encontrado))]"
    by (simp add: updateLead_def)
  show ?thesis
    unfolding tr by (simp add: simulated_calls_def)
qed

theorem update_unknown_id_witness:
  "''2'' \<notin> set (map lead_id (leads selected_state))
   \<and> error (exec selected_state (updateLead selected_state (9 / 10) ''2'' contacted True))
       = Some (''Lead n'' @ [CHR 0xE3] @ ''o encontrado'')
   \<and> simulated_calls (updateLead selected_state (9 / 10) ''2'' contacted True) = 0
   \<and> leads (exec selected_state (updateLead selected_state (9 / 10) ''2'' contacted True)) = [elizabeth]
   \<and> selectedLead (exec selected_state (updateLead selected_state (9 / 10) ''2'' contacted True)) = Some elizabeth"
proof -
  have h: "''2'' \<notin> set (map lead_id (leads selected_state))"
    by (simp add: selected_state_def loaded_state_def elizabeth_def)
  have l: "leads selected_state = [elizabeth]" "selectedLead selected_state = Some elizabeth"
    by (simp_all add: selected_state_def loaded_state_def)
  from update_unknown_id [OF h, of "9 / 10" contacted True, THEN conjunct2] h show ?thesis
    by (simp add: lead_nao_encontrado_def l)
qed

section \<open>The conversion workflow\<close>

text \<open>
  C2.  For every state whose record collection contains a lead with id \<open>i\<close> (\<open>l\<close> is the
  one the lookup finds) and whose Opportunity collection has no Opportunity with
  back-reference \<open>i\<close>, a conversion in which neither simulated call fails runs the six
  events below and ends; the Opportunity collection has grown by exactly one element,
  at its end, whose accountName is the lead's company, whose probability is the lead's
  score and whose leadId is \<open>i\<close>; the status of the lead with id \<open>i\<close> is
  \<^verbatim>\<open>qualified\<close>, the other fields and records being as before; and the loading flag is
  false.
\<close>

theorem convert_success:
  assumes "find (\<lambda>l. lead_id l = i) (leads s) = Some l"
    and "find (\<lambda>opp. leadId opp = i) (opportunities s) = None"
    and "\<not> random1 rt < 5 / 100"
    and "\<not> random3 rt < 1 / 10"
  shows "convertLeadToOpportunity s rt i =
      [Dispatch (SET_LOADING True), SimulatedCall 1500,
       Dispatch (ADD_OPPORTUNITY ((new_opportunity rt l i)\<lparr>opp_id := uuidv4 rt\<rparr>)),
       SimulatedCall 1000,
       Dispatch (UPDATE_LEAD i (no_updates\<lparr>u_status := Some ''qualified''\<rparr>)),
       Dispatch (SET_LOADING False)]
    \<and> opportunities (exec s (convertLeadToOpportunity s rt i))
        = opportunities s @ [(new_opportunity rt l i)\<lparr>opp_id := uuidv4 rt\<rparr>]
    \<and> length (opportunities (exec s (convertLeadToOpportunity s rt i)))
        = length (opportunities s) + 1
    \<and> accountName (last (opportunities (exec s (convertLeadToOpportunity s rt i)))) = company l
    \<and> probability (last (opportunities (exec s (convertLeadToOpportunity s rt i)))) = score l
    \<and> leadId (last (opportunities (exec s (convertLeadToOpportunity s rt i)))) = i
    \<and> leads (exec s (convertLeadToOpportunity s rt i))
        = map (\<lambda>x. if lead_id x = i then x\<lparr>status := ''qualified''\<rparr> else x) (leads s)
    \<and> map_option status (find (\<lambda>x. lead_id x = i) (leads (exec s (convertLeadToOpportunity s rt i))))
        = Some ''qualified''
    \<and> isLoading (exec s (convertLeadToOpportunity s rt i)) = False"
proof -
  let ?tr = "convertLeadToOpportunity s rt i"
  have tr: "?tr =
      [Dispatch (SET_LOADING True), SimulatedCall 1500,
       Dispatch (ADD_OPPORTUNITY ((new_opportunity rt l i)\<lparr>opp_id := uuidv4 rt\<rparr>)),
       SimulatedCall 1000,
       Dispatch (UPDATE_LEAD i (no_updates\<lparr>u_status := Some ''qualified''\<rparr>)),
       Dispatch (SET_LOADING False)]"
    using convert_trace_success [OF assms(1-3)] assms(4) by simp
  have sp: "\<And>x. spread_lead x (no_updates\<lparr>u_status := Some ''qualified''\<rparr>) = x\<lparr>status := ''qualified''\<rparr>"
    by (simp add: spread_lead_def no_updates_def)
  have opps: "opportunities (exec s ?tr) = opportunities s @ [(new_opportunity rt l i)\<lparr>opp_id := uuidv4 rt\<rparr>]"
    unfolding tr by simp
  have lds: "leads (exec s ?tr) = map (\<lambda>x. if lead_id x = i then x\<lparr>status := ''qualified''\<rparr> else x) (leads s)"
    unfolding tr by (simp add: sp)
  have fnd: "find (\<lambda>x. lead_id x = i) (map (\<lambda>x. if lead_id x = i then x\<lparr>status := ''qualified''\<rparr> else x) xs)
      = map_option (\<lambda>x. x\<lparr>status := ''qualified''\<rparr>) (find (\<lambda>x. lead_id x = i) xs)" for xs
    by (induction xs) simp_all
  have st: "map_option status (find (\<lambda>x. lead_id x = i) (leads (exec s ?tr))) = Some ''qualified''"
    unfolding lds fnd using assms(1) by simp
  have ld: "isLoading (exec s ?tr) = False"
    unfolding tr by simp
  show ?thesis
    using tr opps lds st ld by (simp add: new_opportunity_def)
qed

theorem convert_success_witness:
  "find (\<lambda>l. lead_id l = ''1'') (leads loaded_state) = Some elizabeth
   \<and> find (\<lambda>opp. leadId opp = ''1'') (opportunities loaded_state) = None
   \<and> \<not> random1 calm_runtime < 5 / 100 \<and> \<not> random3 calm_runtime < 1 / 10
   \<and> length (opportunities (exec loaded_state (convertLeadToOpportunity loaded_state calm_runtime ''1''))) = 1
   \<and> accountName (last (opportunities (exec loaded_state (convertLeadToOpportunity loaded_state calm_runtime ''1''))))
        = ''Pride and Prejudice Ltd''
   \<and> probability (last (opportunities (exec loaded_state (convertLeadToOpportunity loaded_state calm_runtime ''1'')))) = 95
   \<and> leadId (last (opportunities (exec loaded_state (convertLeadToOpportunity loaded_state calm_runtime ''1'')))) = ''1''
   \<and> map status (leads (exec loaded_state (convertLeadToOpportunity loaded_state calm_runtime ''1''))) = [''qualified'']
   \<and> isLoading (exec loaded_state (convertLeadToOpportunity loaded_state calm_runtime ''1'')) = False"
proof -
  have h1: "find (\<lambda>l. lead_id l = ''1'') (leads loaded_state) = Some elizabeth"
    by (simp add: loaded_state_def elizabeth_def)
  have h2: "find (\<lambda>opp. leadId opp = ''1'') (opportunities loaded_state) = None"
    by (simp add: loaded_state_def providerInitialState_def)
  have h3: "\<not> random1 calm_runtime < 5 / 100"
    by (simp add: calm_runtime_def)
  have h4: "\<not> random3 calm_runtime < 1 / 10"
    by (simp add: calm_runtime_def)
  have c: "company elizabeth = ''Pride and Prejudice Ltd''" "score elizabeth = 95"
    by (simp_all add: elizabeth_def)
  have l: "leads loaded_state = [elizabeth]" "opportunities loaded_state = []"
    by (simp_all add: loaded_state_def providerInitialState_def)
  have i: "lead_id elizabeth = ''1''"
    by (simp add: elizabeth_def)
  from convert_success [OF h1 h2 h3 h4] h1 h2 h3 h4 show ?thesis
    by (simp add: c l i new_opportunity_def spread_lead_def no_updates_def)
qed

text \<open>
  C7.  For every conversion that passes the lookup and the duplicate check, whose first
  simulated call succeeds and whose pessimistic status update fails: the appended
  Opportunity stays in the Opportunity collection, the record collection and the
  selection are unchanged (the transition to \<^verbatim>\<open>qualified\<close> is never applied), the current
  error is the message of the failed status update, and the loading flag ends false.
\<close>

theorem convert_status_update_fails:
  assumes "find (\<lambda>l. lead_id l = i) (leads s) = Some l"
    and "find (\<lambda>opp. leadId opp = i) (opportunities s) = None"
    and "\<not> random1 rt < 5 / 100"
    and "random3 rt < 1 / 10"
  shows "convertLeadToOpportunity s rt i =
      [Dispatch (SET_LOADING True), SimulatedCall 1500,
       Dispatch (ADD_OPPORTUNITY ((new_opportunity rt l i)\<lparr>opp_id := uuidv4 rt\<rparr>)),
       SimulatedCall 1000,
       Dispatch (SET_ERROR (Some ''Lead upgrade failed'')),
       Dispatch (SET_LOADING False)]
    \<and> opportunities (exec s (convertLeadToOpportunity s rt i))
        = opportunities s @ [(new_opportunity rt l i)\<lparr>opp_id := uuidv4 rt\<rparr>]
    \<and> leads (exec s (convertLeadToOpportunity s rt i)) = leads s
    \<and> selectedLead (exec s (convertLeadToOpportunity s rt i)) = selectedLead s
    \<and> error (exec s (convertLeadToOpportunity s rt i)) = Some ''Lead upgrade failed''
    \<and> isLoading (exec s (convertLeadToOpportunity s rt i)) = False"
proof -
  have tr: "convertLeadToOpportunity s rt i =
      [Dispatch (SET_LOADING True), SimulatedCall 1500,
       Dispatch (ADD_OPPORTUNITY ((new_opportunity rt l i)\<lparr>opp_id := uuidv4 rt\<rparr>)),
       SimulatedCall 1000,
       Dispatch (SET_ERROR (Some ''Lead upgrade failed'')),
       Dispatch (SET_LOADING False)]"
    using convert_trace_success [OF assms(1-3)] assms(4) by simp
  show ?thesis
    unfolding tr by simp
qed

theorem convert_status_update_fails_witness:
  "find (\<lambda>l. lead_id l = ''1'') (leads loaded_state) = Some elizabeth
   \<and> find (\<lambda>opp. leadId opp = ''1'') (opportunities loaded_state) = None
   \<and> \<not> random1 stormy_runtime < 5 / 100 \<and> random3 stormy_runtime < 1 / 10
   \<and> map leadId (opportunities (exec loaded_state (convertLeadToOpportunity loaded_state stormy_runtime ''1''))) = [''1'']
   \<and> map status (leads (exec loaded_state (convertLeadToOpportunity loaded_state stormy_runtime ''1''))) = [''new'']
   \<and> error (exec loaded_state (convertLeadToOpportunity loaded_state stormy_runtime ''1'')) = Some ''Lead upgrade failed''
   \<and> isLoading (exec loaded_state (convertLeadToOpportunity loaded_state stormy_runtime ''1'')) = False"
proof -
  have h1: "find (\<lambda>l. lead_id l = ''1'') (leads loaded_state) = Some elizabeth"
    by (simp add: loaded_state_def elizabeth_def)
  have h2: "find (\<lambda>opp. leadId opp = ''1'') (opportunities loaded_state) = None"
    by (simp add: loaded_state_def providerInitialState_def)
  have h3: "\<not> random1 stormy_runtime < 5 / 100"
    by (simp add: stormy_runtime_def calm_runtime_def)
  have h4: "random3 stormy_runtime < 1 / 10"
    by (simp add: stormy_runtime_def calm_runtime_def)
  have l: "leads loaded_state = [elizabeth]" "opportunities loaded_state = []"
    "status elizabeth = ''new''"
    by (simp_all add: loaded_state_def providerInitialState_def elizabeth_def)
  from convert_status_update_fails [OF h1 h2 h3 h4] h1 h2 h3 h4 show ?thesis
    by (simp add: l new_opportunity_def)
qed

text \<open>
  C4, as the code has it.  For every state whose record collection contains a lead with
  id \<open>i\<close> and whose Opportunity collection already contains an Opportunity with
  back-reference \<open>i\<close>, the conversion makes one dispatch and no simulated call; both
  collections are unchanged, the current error is exactly
  \<^verbatim>\<open>Lead already converted into opportunity\<close>, and the loading flag is false afterwards,
  because the set-error transition clears it.
\<close>

theorem convert_already_converted:
  assumes "find (\<lambda>l. lead_id l = i) (leads s) = Some l"
    and "find (\<lambda>opp. leadId opp = i) (opportunities s) = Some existing"
  shows "convertLeadToOpportunity s rt i =
      [Dispatch (SET_ERROR (Some ''Lead already converted into opportunity''))]
    \<and> simulated_calls (convertLeadToOpportunity s rt i) = 0
    \<and> opportunities (exec s (convertLeadToOpportunity s rt i)) = opportunities s
    \<and> leads (exec s (convertLeadToOpportunity s rt i)) = leads s
    \<and> error (exec s (convertLeadToOpportunity s rt i))
        = Some ''Lead already converted into opportunity''
    \<and> isLoading (exec s (convertLeadToOpportunity s rt i)) = False"
proof -
  have tr: "convertLeadToOpportunity s rt i =
      [Dispatch (SET_ERROR (Some ''Lead already converted into opportunity''))]"
    using assms by (simp add: convertLeadToOpportunity_def)
  show ?thesis
    unfolding tr by (simp add: simulated_calls_def)
qed

theorem convert_already_converted_witness:
  "find (\<lambda>l. lead_id l = ''1'') (leads converted_state) = Some elizabeth
   \<and> find (\<lambda>opp. leadId opp = ''1'') (opportunities converted_state) = Some sample_opportunity
   \<and> opportunities (exec converted_state (convertLeadToOpportunity converted_state calm_runtime ''1''))
       = [sample_opportunity]
   \<and> error (exec converted_state (convertLeadToOpportunity converted_state calm_runtime ''1''))
       = Some ''Lead already converted into opportunity''
   \<and> simulated_calls (convertLeadToOpportunity converted_state calm_runtime ''1'') = 0"
proof -
  have h1: "find (\<lambda>l. lead_id l = ''1'') (leads converted_state) = Some elizabeth"
    by (simp add: converted_state_def loaded_state_def elizabeth_def)
  have h2: "find (\<lambda>opp. leadId opp = ''1'') (opportunities converted_state) = Some sample_opportunity"
    by (simp add: converted_state_def sample_opportunity_def)
  have l: "opportunities converted_state = [sample_opportunity]"
    by (simp add: converted_state_def)
  from convert_already_converted [OF h1 h2, of calm_runtime] h1 h2 show ?thesis
    by (simp add: l simulated_calls_def)
qed

text \<open>
  C4 as stated fails for the loading flag: while another conversion is in flight the
  flag is true, and the set-error transition of the refused conversion sets it to false.
  It also fails while the leads are still loading: the Opportunity with back-reference
  \<^verbatim>\<open>1\<close> is there, the lead is not, and the lookup fails first with \<^verbatim>\<open>Lead not found\<close>.
\<close>

theorem convert_duplicate_not_as_stated:
  "find (\<lambda>opp. leadId opp = ''1'') (opportunities converting_state) = Some sample_opportunity
   \<and> isLoading converting_state = True
   \<and> isLoading (exec converting_state (convertLeadToOpportunity converting_state calm_runtime ''1'')) = False
   \<and> find (\<lambda>opp. leadId opp = ''1'') (opportunities busy_state) = Some sample_opportunity
   \<and> error (exec busy_state (convertLeadToOpportunity busy_state calm_runtime ''1''))
       = Some ''Lead not found''"
  by (simp add: converting_state_def busy_state_def providerInitialState_def
      convertLeadToOpportunity_def sample_opportunity_def elizabeth_def)

section \<open>Optimistic update and rollback\<close>

text \<open>
  C3, as the code has it.  For every state containing a lead with id \<open>i\<close> (\<open>originalLead\<close>
  is the one the lookup finds), an optimistic \<^verbatim>\<open>updateLead\<close> whose simulated call rejects
  and whose updates do not assign the id: while the call is pending, the updates are
  merged into every lead with id \<open>i\<close> and into the selected lead when it has id \<open>i\<close>;
  after the rejection every lead with id \<open>i\<close> is \<open>originalLead\<close> again, so that with
  unique ids the record collection is exactly the one before the call; the selected
  lead, when it has id \<open>i\<close>, is replaced by \<open>originalLead\<close> too, which is its own
  previous value when it was that lead; and the current error is the message of the
  failure.
\<close>

theorem optimistic_update_rolled_back:
  assumes "find (\<lambda>l. lead_id l = i) (leads s) = Some originalLead"
    and "r < 1 / 10"
    and "u_id updates = None"
  shows "updateLead s r i updates True =
      [Dispatch (UPDATE_LEAD i updates), SimulatedCall 1000,
       Dispatch (UPDATE_LEAD_ROLLBACK i originalLead),
       Dispatch (SET_ERROR (Some ''Lead upgrade failed''))]
    \<and> leads (state_at_call s (updateLead s r i updates True))
        = map (\<lambda>l. if lead_id l = i then spread_lead l updates else l) (leads s)
    \<and> selectedLead (state_at_call s (updateLead s r i updates True))
        = (if selected_has_id (selectedLead s) i
           then map_option (\<lambda>m. spread_lead m updates) (selectedLead s)
           else selectedLead s)
    \<and> leads (exec s (updateLead s r i updates True))
        = map (\<lambda>l. if lead_id l = i then originalLead else l) (leads s)
    \<and> (distinct (map lead_id (leads s)) \<longrightarrow>
         leads (exec s (updateLead s r i updates True)) = leads s)
    \<and> selectedLead (exec s (updateLead s r i updates True))
        = (if selected_has_id (selectedLead s) i then Some originalLead else selectedLead s)
    \<and> (selectedLead s = Some originalLead \<longrightarrow>
         selectedLead (exec s (updateLead s r i updates True)) = selectedLead s)
    \<and> error (exec s (updateLead s r i updates True)) = Some ''Lead upgrade failed''"
proof -
  let ?tr = "updateLead s r i updates True"
  have tr: "?tr =
      [Dispatch (UPDATE_LEAD i updates), SimulatedCall 1000,
       Dispatch (UPDATE_LEAD_ROLLBACK i originalLead),
       Dispatch (SET_ERROR (Some ''Lead upgrade failed''))]"
    using assms(1,2) by (simp add: updateLead_def)
  have mid: "state_at_call s ?tr = appReducer s (UPDATE_LEAD i updates)"
    unfolding tr by (simp add: state_at_call_def)
  have fin: "exec s ?tr =
      appReducer (appReducer (appReducer s (UPDATE_LEAD i updates))
        (UPDATE_LEAD_ROLLBACK i originalLead)) (SET_ERROR (Some ''Lead upgrade failed''))"
    unfolding tr by simp
  have lds: "leads (exec s ?tr) = map (\<lambda>l. if lead_id l = i then originalLead else l) (leads s)"
    unfolding fin using rollback_after_update [OF assms(3)] by simp
  have sel: "selectedLead (exec s ?tr)
        = (if selected_has_id (selectedLead s) i then Some originalLead else selectedLead s)"
    unfolding fin using assms(3)
    by (cases "selectedLead s") (simp_all add: selected_has_id_def lead_id_spread)
  have uniq: "distinct (map lead_id (leads s)) \<longrightarrow> leads (exec s ?tr) = leads s"
    unfolding lds using unique_id_restored [OF assms(1)] by simp
  have same: "selectedLead s = Some originalLead \<longrightarrow> selectedLead (exec s ?tr) = selectedLead s"
    unfolding sel by simp
  have err: "error (exec s ?tr) = Some ''Lead upgrade failed''"
    unfolding fin by simp
  show ?thesis
    using tr lds sel uniq same err unfolding mid by simp
qed

theorem optimistic_update_rolled_back_witness:
  "find (\<lambda>l. lead_id l = ''1'') (leads selected_state) = Some elizabeth
   \<and> (1 / 20 :: real) < 1 / 10
   \<and> u_id contacted = None
   \<and> distinct (map lead_id (leads selected_state))
   \<and> map status (leads (state_at_call selected_state (updateLead selected_state (1 / 20) ''1'' contacted True)))
       = [''contacted'']
   \<and> map_option status (selectedLead (state_at_call selected_state (updateLead selected_state (1 / 20) ''1'' contacted True)))
       = Some ''contacted''
   \<and> leads (exec selected_state (updateLead selected_state (1 / 20) ''1'' contacted True)) = [elizabeth]
   \<and> selectedLead (exec selected_state (updateLead selected_state (1 / 20) ''1'' contacted True)) = Some elizabeth
   \<and> error (exec selected_state (updateLead selected_state (1 / 20) ''1'' contacted True)) = Some ''Lead upgrade failed''"
proof -
  have h1: "find (\<lambda>l. lead_id l = ''1'') (leads selected_state) = Some elizabeth"
    by (simp add: selected_state_def loaded_state_def elizabeth_def)
  have h2: "(1 / 20 :: real) < 1 / 10"
    by simp
  have h3: "u_id contacted = None"
    by (simp add: contacted_def no_updates_def)
  have h4: "distinct (map lead_id (leads selected_state))"
    by (simp add: selected_state_def loaded_state_def)
  have l: "leads selected_state = [elizabeth]" "selectedLead selected_state = Some elizabeth"
    "lead_id elizabeth = ''1''" "status (spread_lead elizabeth contacted) = ''contacted''"
    by (simp_all add: selected_state_def loaded_state_def elizabeth_def spread_lead_def
        contacted_def no_updates_def)
  from optimistic_update_rolled_back [OF h1 h2 h3, THEN conjunct2] h1 h3 h4 show ?thesis
    by (simp add: l selected_has_id_def)
qed

text \<open>
  C3 as stated fails for the selection: a selected lead that carries id \<^verbatim>\<open>1\<close> but
  differs from the lead in the collection is not restored to its own previous value.
  It also fails for updates that assign another id: the rollback finds no lead with the
  old id and restores nothing.
\<close>

theorem rollback_not_as_stated:
  "selectedLead (exec stale_selection_state
       (updateLead stale_selection_state (1 / 20) ''1'' contacted True))
     \<noteq> selectedLead stale_selection_state
   \<and> leads (exec loaded_state (updateLead loaded_state (1 / 20) ''1'' renumbered True))
     \<noteq> leads loaded_state"
  by (simp add: stale_selection_state_def loaded_state_def updateLead_def elizabeth_def
      selected_has_id_def spread_lead_def contacted_def no_updates_def renumbered_def)

section \<open>One Opportunity for each lead\<close>

lemma ids_apply_event:
  "\<not> is_bulk e \<Longrightarrow>
   map leadId (opportunities (apply_event s e)) = map leadId (opportunities s) @ event_adds e"
proof (cases e)
  case (Dispatch a)
  assume "\<not> is_bulk e"
  with Dispatch show ?thesis by (cases a) simp_all
next
  case (SimulatedCall ms)
  then show ?thesis by simp
qed

lemma ids_exec:
  "no_bulk evs \<Longrightarrow>
   map leadId (opportunities (exec s evs)) = map leadId (opportunities s) @ trace_adds evs"
proof (induction evs arbitrary: s)
  case Nil
  then show ?case by (simp add: trace_adds_def)
next
  case (Cons e evs)
  then show ?case
    by (simp add: no_bulk_def trace_adds_def ids_apply_event)
qed

lemma adds_dropWhile:
  "trace_adds (dropWhile (\<lambda>e. \<not> is_call e) evs) = trace_adds (after_call evs)"
proof (cases "dropWhile (\<lambda>e. \<not> is_call e) evs")
  case Nil
  show ?thesis unfolding after_call_def Nil by simp
next
  case (Cons c cs)
  then have "is_call c"
    using hd_dropWhile [of "\<lambda>e. \<not> is_call e" evs] by auto
  then have "event_adds c = []" by (cases c) simp_all
  with Cons show ?thesis by (simp add: after_call_def trace_adds_def)
qed

lemma adds_split:
  "trace_adds evs
     = trace_adds (takeWhile (\<lambda>e. \<not> is_call e) evs) @ trace_adds (after_call evs)"
proof -
  have "trace_adds evs = trace_adds (takeWhile (\<lambda>e. \<not> is_call e) evs @ dropWhile (\<lambda>e. \<not> is_call e) evs)"
    by simp
  also have "\<dots> = trace_adds (takeWhile (\<lambda>e. \<not> is_call e) evs)
      @ trace_adds (dropWhile (\<lambda>e. \<not> is_call e) evs)"
    unfolding trace_adds_def by (simp only: map_append concat_append)
  finally show ?thesis by (simp only: adds_dropWhile)
qed

lemma no_bulk_parts:
  assumes "no_bulk evs"
  shows "no_bulk (takeWhile (\<lambda>e. \<not> is_call e) evs)" and "no_bulk (after_call evs)"
proof -
  have a: "set (takeWhile (\<lambda>e. \<not> is_call e) evs) \<subseteq> set evs"
    by (auto dest: set_takeWhileD)
  have b: "set (after_call evs) \<subseteq> set evs"
    unfolding after_call_def
    by (meson set_drop_subset set_dropWhileD subset_iff)
  from assms a show "no_bulk (takeWhile (\<lambda>e. \<not> is_call e) evs)"
    by (auto simp: no_bulk_def list_all_iff)
  from assms b show "no_bulk (after_call evs)"
    by (auto simp: no_bulk_def list_all_iff)
qed

lemma ids_state_at_call:
  "no_bulk evs \<Longrightarrow>
   map leadId (opportunities (state_at_call s evs))
     = map leadId (opportunities s) @ trace_adds (takeWhile (\<lambda>e. \<not> is_call e) evs)"
  unfolding state_at_call_def by (rule ids_exec) (rule no_bulk_parts)

lemma pending_adds_update:
  "k < length xs \<Longrightarrow>
   mset (pending_adds (xs[k := y])) + mset (trace_adds (xs ! k))
     = mset (pending_adds xs) + mset (trace_adds y)"
proof (induction xs arbitrary: k)
  case Nil
  then show ?case by simp
next
  case (Cons x xs)
  show ?case
  proof (cases k)
    case 0
    then show ?thesis by (simp add: pending_adds_def)
  next
    case (Suc j)
    with Cons.prems have "j < length xs" by simp
    from Cons.IH [OF this] Suc show ?thesis
      by (simp add: pending_adds_def)
  qed
qed

lemma distinct_mset_eq: "mset xs = mset ys \<Longrightarrow> distinct xs \<Longrightarrow> distinct ys"
  using mset_eq_imp_distinct_iff by blast

lemma trace_updateLead: "trace_adds (updateLead s r i updates optimistic) = []"
  "no_bulk (updateLead s r i updates optimistic)"
  by (simp_all add: updateLead_def trace_adds_def no_bulk_def split: option.splits)

lemma trace_convert:
  "no_bulk (convertLeadToOpportunity s rt i)"
  "trace_adds (convertLeadToOpportunity s rt i) = []
   \<or> (trace_adds (convertLeadToOpportunity s rt i) = [i]
       \<and> i \<notin> set (map leadId (opportunities s)))"
proof -
  show "no_bulk (convertLeadToOpportunity s rt i)"
    using trace_updateLead(2) [of s "random3 rt" i _ False]
    by (simp add: convertLeadToOpportunity_def addOpportunity_def no_bulk_def
        split: option.splits)
  show "trace_adds (convertLeadToOpportunity s rt i) = []
   \<or> (trace_adds (convertLeadToOpportunity s rt i) = [i]
       \<and> i \<notin> set (map leadId (opportunities s)))"
    using trace_updateLead(1) [of s "random3 rt" i _ False]
    by (auto simp: convertLeadToOpportunity_def addOpportunity_def trace_adds_def
        new_opportunity_def find_None_iff split: option.splits)
qed

lemma after_call_none:
  assumes "\<not> list_ex is_call evs"
  shows "after_call evs = []"
proof -
  from assms have e: "dropWhile (\<lambda>e. \<not> is_call e) evs = []"
    by (simp add: list_ex_iff)
  show ?thesis
    unfolding after_call_def e by simp
qed

lemma pending_adds_push:
  "pending_adds (if list_ex is_call tr then pend @ [after_call tr] else pend)
     = pending_adds pend @ trace_adds (after_call tr)"
  by (simp add: pending_adds_def after_call_none trace_adds_def)

lemma no_bulk_push:
  "list_all no_bulk pend \<Longrightarrow> no_bulk tr \<Longrightarrow>
   list_all no_bulk (if list_ex is_call tr then pend @ [after_call tr] else pend)"
  by (simp add: no_bulk_parts)

lemma run_trace_keeps_unique:
  assumes nb: "no_bulk tr"
    and d: "distinct (trace_adds tr @ map leadId (opportunities s) @ adds)"
  shows "distinct (map leadId (opportunities (state_at_call s tr))
           @ adds @ trace_adds (after_call tr))"
proof -
  have "mset (map leadId (opportunities (state_at_call s tr)) @ adds @ trace_adds (after_call tr))
      = mset (map leadId (opportunities s))
        + mset (trace_adds (takeWhile (\<lambda>e. \<not> is_call e) tr))
        + mset adds + mset (trace_adds (after_call tr))"
    by (simp add: ids_state_at_call [OF nb])
  also have "\<dots> = mset (trace_adds tr) + mset (map leadId (opportunities s)) + mset adds"
    by (subst (3) adds_split) simp
  finally have "mset (trace_adds tr @ map leadId (opportunities s) @ adds)
      = mset (map leadId (opportunities (state_at_call s tr)) @ adds @ trace_adds (after_call tr))"
    by simp
  then show ?thesis
    using d by (rule distinct_mset_eq)
qed

lemma invoke_keeps_unique:
  assumes inv: "unique_with_pending sc"
    and nb: "no_bulk tr"
    and d: "distinct (trace_adds tr
              @ map leadId (opportunities (current sc)) @ pending_adds (pending sc))"
    and c: "current sc' = state_at_call (current sc) tr"
    and p: "pending sc' = (if list_ex is_call tr then pending sc @ [after_call tr] else pending sc)"
  shows "unique_with_pending sc'"
proof -
  from inv have pb: "list_all no_bulk (pending sc)"
    by (simp add: unique_with_pending_def)
  show ?thesis
    unfolding unique_with_pending_def c p
    using run_trace_keeps_unique [OF nb d] no_bulk_push [OF pb nb]
    by (simp add: pending_adds_push)
qed

lemma resume_keeps_unique:
  assumes inv: "unique_with_pending sc" and k: "k < length (pending sc)"
    and c: "current sc' = state_at_call (current sc) (pending sc ! k)"
    and p: "pending sc' = (pending sc)[k := after_call (pending sc ! k)]"
  shows "unique_with_pending sc'"
proof -
  let ?tr = "pending sc ! k"
  let ?ids = "map leadId (opportunities (current sc))"
  from inv have pb: "list_all no_bulk (pending sc)"
    and d: "distinct (?ids @ pending_adds (pending sc))"
    by (simp_all add: unique_with_pending_def)
  from pb k have nb: "no_bulk ?tr"
    by (simp add: list_all_length)
  have u: "mset (pending_adds ((pending sc)[k := after_call ?tr])) + mset (trace_adds ?tr)
      = mset (pending_adds (pending sc)) + mset (trace_adds (after_call ?tr))"
    using k by (rule pending_adds_update)
  have sp: "mset (trace_adds ?tr)
      = mset (trace_adds (takeWhile (\<lambda>e. \<not> is_call e) ?tr)) + mset (trace_adds (after_call ?tr))"
    by (subst adds_split) simp
  have "mset (pending_adds ((pending sc)[k := after_call ?tr]))
        + mset (trace_adds (takeWhile (\<lambda>e. \<not> is_call e) ?tr))
      = mset (pending_adds (pending sc))"
    using u unfolding sp by simp
  then have "mset (?ids @ pending_adds (pending sc))
      = mset (map leadId (opportunities (state_at_call (current sc) ?tr))
          @ pending_adds ((pending sc)[k := after_call ?tr]))"
    by (simp add: ids_state_at_call [OF nb] add.commute add.left_commute)
  then have "distinct (map leadId (opportunities (state_at_call (current sc) ?tr))
          @ pending_adds ((pending sc)[k := after_call ?tr]))"
    using d by (rule distinct_mset_eq)
  moreover have "list_all no_bulk ((pending sc)[k := after_call ?tr])"
    using pb no_bulk_parts(2) [OF nb]
    by (auto simp: list_all_iff dest!: set_update_subset_insert [THEN subsetD])
  ultimately show ?thesis
    unfolding unique_with_pending_def c p by simp
qed

lemma allowed_step:
  assumes inv: "unique_with_pending sc" and al: "allowed sc st"
  shows "unique_with_pending (run_step sc st)"
proof (cases st)
  case Render
  with inv show ?thesis
    by (simp add: unique_with_pending_def)
next
  case (Resume k)
  show ?thesis
  proof (cases "k < length (pending sc)")
    case True
    from inv True show ?thesis
      by (rule resume_keeps_unique) (simp_all add: Resume True Let_def)
  next
    case False
    with inv Resume show ?thesis by simp
  qed
next
  case (Invoke n op)
  let ?ids = "map leadId (opportunities (current sc))"
  from inv have d: "distinct (?ids @ pending_adds (pending sc))"
    and pb: "list_all no_bulk (pending sc)"
    by (simp_all add: unique_with_pending_def)
  show ?thesis
  proof (cases "n < length (renders sc)")
    case False
    with inv Invoke show ?thesis by simp
  next
    case n: True
    show ?thesis
    proof (cases op)
      case (Reduce a)
      have c: "current (run_step sc st) = appReducer (current sc) a"
        and p: "pending (run_step sc st) = pending sc"
        unfolding Invoke Reduce using n by (simp_all add: state_at_call_def)
      from al have "allowed_action (pending_adds (pending sc)) a"
        unfolding Invoke Reduce by simp
      then have "distinct (map leadId (opportunities (appReducer (current sc) a))
          @ pending_adds (pending sc))"
        using d by (cases a) simp_all
      with pb show ?thesis
        unfolding unique_with_pending_def c p by simp
    next
      case (UpdateRecord r i updates optimistic)
      let ?tr = "updateLead (renders sc ! n) r i updates optimistic"
      have "distinct (trace_adds ?tr @ ?ids @ pending_adds (pending sc))"
        using d by (simp add: trace_updateLead(1))
      with inv trace_updateLead(2) show ?thesis
        by (rule invoke_keeps_unique) (simp_all add: Invoke UpdateRecord n Let_def)
    next
      case (Convert rt i)
      let ?tr = "convertLeadToOpportunity (renders sc ! n) rt i"
      from al have g: "i \<notin> set (pending_adds (pending sc))"
        and v: "converted (current sc) i \<longrightarrow> converted (renders sc ! n) i"
        unfolding Invoke Convert by simp_all
      have "distinct (trace_adds ?tr @ ?ids @ pending_adds (pending sc))"
        using trace_convert(2) [of "renders sc ! n" rt i] d g v
        by (auto simp: converted_def)
      with inv trace_convert(1) show ?thesis
        by (rule invoke_keeps_unique) (simp_all add: Invoke Convert n Let_def)
    next
      case (AddOpportunity uuid opp)
      with al Invoke show ?thesis by simp
    qed
  qed
qed

lemma allowed_steps:
  "unique_with_pending sc \<Longrightarrow> allowed_run sc steps \<Longrightarrow>
   unique_with_pending (run_schedule sc steps)"
  unfolding run_schedule_def
  by (induction steps arbitrary: sc) (simp_all add: allowed_step)

lemmas sched_defs = run_schedule_def start_def providerInitialState_def elizabeth_def
  calm_runtime_def second_runtime_def convertLeadToOpportunity_def addOpportunity_def
  updateLead_def new_opportunity_def spread_lead_def no_updates_def state_at_call_def
  after_call_def sample_opportunity_def pending_adds_def trace_adds_def converted_def Let_def

text \<open>
  C1, as the code has it.  For every state reached from the initial state by a schedule
  of allowed steps (renders, resumptions in any order, and invocations, through the
  callbacks of any render, of conversions, of record updates and of every reducer
  transition except the raw append and a bulk replacement that repeats a back-reference
  or holds one still to be appended; where no conversion of a lead is invoked while an
  earlier conversion of that lead has yet to append its Opportunity, nor through a
  callback of a render older than the lead's Opportunity), the Opportunity collection
  contains at most one Opportunity for each back-reference.
\<close>

theorem conversions_stay_unique:
  assumes "allowed_run (start f) steps"
  shows "one_opportunity_per_lead (current (run_schedule (start f) steps))"
proof -
  have "unique_with_pending (start f)"
    by (simp add: unique_with_pending_def start_def providerInitialState_def pending_adds_def)
  then have "unique_with_pending (run_schedule (start f) steps)"
    using assms by (rule allowed_steps)
  then show ?thesis
    by (simp add: unique_with_pending_def one_opportunity_per_lead_def)
qed

theorem conversions_stay_unique_witness:
  "allowed_run (start default_filters) convert_twice_in_turn
   \<and> map leadId (opportunities (current (run_schedule (start default_filters) convert_twice_in_turn)))
       = [''1'']
   \<and> error (current (run_schedule (start default_filters) convert_twice_in_turn))
       = Some ''Lead already converted into opportunity''"
proof -
  have h: "allowed_run (start default_filters) convert_twice_in_turn"
    by (simp add: convert_twice_in_turn_def sched_defs)
  have r: "map leadId (opportunities (current (run_schedule (start default_filters) convert_twice_in_turn)))
       = [''1'']"
    "error (current (run_schedule (start default_filters) convert_twice_in_turn))
       = Some ''Lead already converted into opportunity''"
    by (simp_all add: convert_twice_in_turn_def sched_defs)
  from conversions_stay_unique [OF h] h r show ?thesis
    by (intro conjI)
qed

text \<open>
  C1 as stated fails.  \<^verbatim>\<open>addOpportunity\<close> appends without looking at the collection, so
  two calls with the same back-reference leave two Opportunities for one lead, and the
  set-opportunities transition stores whatever payload it is given.  Two conversions of
  one lead that are both invoked before either simulated call returns both pass the
  duplicate check, which reads the collection their closures captured, and both append.
  So does a second conversion that is invoked after the first has finished, but through
  the callback of the render before it.  A bulk load arriving while a conversion waits
  has the same effect.
\<close>

theorem duplicate_conversions_reachable:
  "\<not> one_opportunity_per_lead (current (run_schedule (start default_filters) add_twice))
   \<and> \<not> one_opportunity_per_lead (current (run_schedule (start default_filters) load_repeated))
   \<and> map leadId (opportunities (current (run_schedule (start default_filters) convert_twice_overlapping)))
       = [''1'', ''1'']
   \<and> map leadId (opportunities (current (run_schedule (start default_filters) convert_twice_stale)))
       = [''1'', ''1'']
   \<and> map leadId (opportunities (current (run_schedule (start default_filters) load_during_conversion)))
       = [''1'', ''1'']"
  by (simp add: add_twice_def load_repeated_def convert_twice_overlapping_def
      convert_twice_stale_def load_during_conversion_def one_opportunity_per_lead_def sched_defs)

section \<open>Filter criteria survive a restart\<close>

lemma spread_all_of: "spread_filters f (all_of c) = c"
  by (simp add: spread_filters_def all_of_def)

text \<open>
  C8, as the code has it.  For every state and every criteria update handed to
  \<^verbatim>\<open>setFilters\<close>, when the write to storage and the later read go through and the JSON
  functions give the merged criteria object back from its text: the text stored under
  \<^verbatim>\<open>seller_console_filters\<close> is the one of the merged criteria, the store's criteria are
  the merged ones, and what a fresh store loads from that storage as its criteria is
  the object of the same criteria (complete criteria \<open>c\<close> merge to \<open>c\<close> itself).  For every
  storage whose entry is absent, empty or a text that \<^verbatim>\<open>JSON.parse\<close> rejects, and when
  reading the storage throws, the fresh store's criteria are the defaults.  Every other
  stored text gives the fresh store the value \<^verbatim>\<open>JSON.parse\<close> returns for it, whatever
  its shape.
\<close>

theorem filters_round_trip:
  assumes "\<not> setItem_throws"
    and "\<not> getItem_throws"
    and "JSON_parse env (JSON_stringify env (criteria_object (spread_filters (filters s) partial)))
           = Some (criteria_object (spread_filters (filters s) partial))"
    and "JSON_stringify env (criteria_object (spread_filters (filters s) partial)) \<noteq> []"
  shows "fst (setFilters env setItem_throws s st partial) ''seller_console_filters''
        = Some (JSON_stringify env (criteria_object (spread_filters (filters s) partial)))
    \<and> filters (exec s (snd (setFilters env setItem_throws s st partial)))
        = spread_filters (filters s) partial
    \<and> loadFiltersFromStorage env getItem_throws (fst (setFilters env setItem_throws s st partial))
        = criteria_object (filters (exec s (snd (setFilters env setItem_throws s st partial))))
    \<and> spread_filters (filters s) (all_of c) = c
    \<and> (st' ''seller_console_filters'' = None \<longrightarrow>
         loadFiltersFromStorage env getItem_throws st' = criteria_object default_filters)
    \<and> (st' ''seller_console_filters'' = Some [] \<longrightarrow>
         loadFiltersFromStorage env getItem_throws st' = criteria_object default_filters)
    \<and> (st' ''seller_console_filters'' = Some saved \<longrightarrow> JSON_parse env saved = None \<longrightarrow>
         loadFiltersFromStorage env getItem_throws st' = criteria_object default_filters)
    \<and> (st' ''seller_console_filters'' = Some saved \<longrightarrow> saved \<noteq> [] \<longrightarrow>
         JSON_parse env saved = Some parsed \<longrightarrow>
         loadFiltersFromStorage env getItem_throws st' = parsed)
    \<and> loadFiltersFromStorage env True st' = criteria_object default_filters"
proof -
  let ?nf = "spread_filters (filters s) partial"
  let ?K = "''seller_console_filters''"
  have w: "fst (setFilters env setItem_throws s st partial) ?K
      = Some (JSON_stringify env (criteria_object ?nf))"
    using assms(1) by (simp add: setFilters_def STORAGE_KEYS_FILTERS_def Let_def)
  have m: "filters (exec s (snd (setFilters env setItem_throws s st partial))) = ?nf"
    by (simp add: setFilters_def Let_def spread_all_of)
  have l: "loadFiltersFromStorage env getItem_throws (fst (setFilters env setItem_throws s st partial))
      = criteria_object ?nf"
    unfolding loadFiltersFromStorage_def STORAGE_KEYS_FILTERS_def w using assms(2,3,4) by simp
  have a: "st' ?K = None \<longrightarrow>
      loadFiltersFromStorage env getItem_throws st' = criteria_object default_filters"
    by (simp add: loadFiltersFromStorage_def STORAGE_KEYS_FILTERS_def)
  have b: "st' ?K = Some saved \<longrightarrow> JSON_parse env saved = None \<longrightarrow>
      loadFiltersFromStorage env getItem_throws st' = criteria_object default_filters"
    by (simp add: loadFiltersFromStorage_def STORAGE_KEYS_FILTERS_def)
  have e: "st' ?K = Some [] \<longrightarrow>
      loadFiltersFromStorage env getItem_throws st' = criteria_object default_filters"
    by (simp add: loadFiltersFromStorage_def STORAGE_KEYS_FILTERS_def)
  have p: "st' ?K = Some saved \<longrightarrow> saved \<noteq> [] \<longrightarrow> JSON_parse env saved = Some parsed \<longrightarrow>
      loadFiltersFromStorage env getItem_throws st' = parsed"
    using assms(2) by (simp add: loadFiltersFromStorage_def STORAGE_KEYS_FILTERS_def)
  have t: "loadFiltersFromStorage env True st' = criteria_object default_filters"
    by (simp add: loadFiltersFromStorage_def)
  have c: "spread_filters (filters s) (all_of c) = c"
    by (rule spread_all_of)
  show ?thesis
    unfolding m l by (intro conjI w a b e p t c refl)
qed

theorem filters_round_trip_witness:
  "JSON_parse mini_json
       (JSON_stringify mini_json (criteria_object (spread_filters (filters loaded_state) search_test)))
     = Some (criteria_object (spread_filters (filters loaded_state) search_test))
   \<and> JSON_stringify mini_json (criteria_object (spread_filters (filters loaded_state) search_test)) \<noteq> []
   \<and> loadFiltersFromStorage mini_json False
         (fst (setFilters mini_json False loaded_state Map.empty search_test))
       = criteria_object saved_search
   \<and> filters (exec loaded_state (snd (setFilters mini_json False loaded_state Map.empty search_test)))
       = saved_search
   \<and> loadFiltersFromStorage mini_json False Map.empty = criteria_object default_filters
   \<and> loadFiltersFromStorage mini_json False [''seller_console_filters'' \<mapsto> ''''] = criteria_object default_filters
   \<and> JSON_parse mini_json broken_text = None
   \<and> loadFiltersFromStorage mini_json False [''seller_console_filters'' \<mapsto> broken_text]
       = criteria_object default_filters
   \<and> JSON_parse mini_json search_only_text = Some (J_obj [(''search'', J_str ''x'')])
   \<and> loadFiltersFromStorage mini_json False [''seller_console_filters'' \<mapsto> search_only_text]
       = J_obj [(''search'', J_str ''x'')]"
proof -
  have nf: "spread_filters (filters loaded_state) search_test = saved_search"
    by (simp add: spread_filters_def loaded_state_def providerInitialState_def
        default_filters_def search_test_def saved_search_def)
  have h1: "\<not> False"
    by simp
  have h3: "JSON_parse mini_json
       (JSON_stringify mini_json (criteria_object (spread_filters (filters loaded_state) search_test)))
     = Some (criteria_object (spread_filters (filters loaded_state) search_test))"
    unfolding nf
    by (simp add: mini_json_def mini_parse_def criteria_object_def saved_search_def quoted_def)
  have h4: "JSON_stringify mini_json (criteria_object (spread_filters (filters loaded_state) search_test)) \<noteq> []"
    unfolding nf by (simp add: mini_json_def criteria_object_def)
  have e3: "JSON_parse mini_json broken_text = None"
    by (simp add: mini_json_def mini_parse_def broken_text_def)
  have e4: "JSON_parse mini_json search_only_text = Some (J_obj [(''search'', J_str ''x'')])"
    by (simp add: mini_json_def mini_parse_def search_only_text_def quoted_def)
  have n3: "broken_text \<noteq> []"
    by (simp add: broken_text_def)
  have n4: "search_only_text \<noteq> []"
    by (simp add: search_only_text_def)
  note t1 = filters_round_trip [OF h1 h1 h3 h4, of Map.empty saved_search Map.empty]
  note t2 = filters_round_trip [OF h1 h1 h3 h4, of Map.empty saved_search
      "[''seller_console_filters'' \<mapsto> '''']"]
  note t3 = filters_round_trip [OF h1 h1 h3 h4, of Map.empty saved_search
      "[''seller_console_filters'' \<mapsto> broken_text]" broken_text]
  note t4 = filters_round_trip [OF h1 h1 h3 h4, of Map.empty saved_search
      "[''seller_console_filters'' \<mapsto> search_only_text]" search_only_text
      "J_obj [(''search'', J_str ''x'')]"]
  have a: "loadFiltersFromStorage mini_json False
         (fst (setFilters mini_json False loaded_state Map.empty search_test))
       = criteria_object saved_search"
    using t1 unfolding nf by simp
  have b: "filters (exec loaded_state (snd (setFilters mini_json False loaded_state Map.empty search_test)))
       = saved_search"
    using t1 unfolding nf by simp
  have c: "loadFiltersFromStorage mini_json False Map.empty = criteria_object default_filters"
    using t1 by simp
  have d: "loadFiltersFromStorage mini_json False [''seller_console_filters'' \<mapsto> '''']
       = criteria_object default_filters"
    using t2 by simp
  have e: "loadFiltersFromStorage mini_json False [''seller_console_filters'' \<mapsto> broken_text]
       = criteria_object default_filters"
    using t3 e3 by simp
  have f: "loadFiltersFromStorage mini_json False [''seller_console_filters'' \<mapsto> search_only_text]
       = J_obj [(''search'', J_str ''x'')]"
    using t4 e4 n4 by simp
  show ?thesis
    by (intro conjI h3 h4 a b c d e3 e e4 f)
qed

text \<open>
  C8 as stated fails for stored values that are JSON but no criteria.  The stored text
  \<^verbatim>\<open>null\<close> makes the fresh store's criteria null, and a stored object that holds a search
  term alone becomes the criteria as it is, without the three other properties; neither
  is replaced by the defaults.
\<close>

theorem stored_value_not_validated:
  "loadFiltersFromStorage mini_json False [''seller_console_filters'' \<mapsto> ''null''] = J_null
   \<and> loadFiltersFromStorage mini_json False [''seller_console_filters'' \<mapsto> ''null'']
       \<noteq> criteria_object default_filters
   \<and> loadFiltersFromStorage mini_json False [''seller_console_filters'' \<mapsto> search_only_text]
       = J_obj [(''search'', J_str ''x'')]
   \<and> loadFiltersFromStorage mini_json False [''seller_console_filters'' \<mapsto> search_only_text]
       \<noteq> criteria_object default_filters"
  by (simp add: loadFiltersFromStorage_def STORAGE_KEYS_FILTERS_def mini_json_def mini_parse_def
      search_only_text_def quoted_def criteria_object_def)

section \<open>Sorting with a comparison function\<close>

lemma mset_insert_by: "mset (insert_by c x xs) = add_mset x (mset xs)"
  by (induction xs) simp_all

lemma mset_sort_by: "mset (sort_by c xs) = mset xs"
  by (induction xs) (simp_all add: sort_by_def mset_insert_by)

lemma set_insert_by: "set (insert_by c x xs) = insert x (set xs)"
  by (induction xs) auto

lemma consistent_total: "consistent c \<Longrightarrow> \<not> c x y \<le> 0 \<Longrightarrow> c y x \<le> 0"
  unfolding consistent_def by (metis not_le order_less_imp_le)

lemma consistent_trans: "consistent c \<Longrightarrow> c x y \<le> 0 \<Longrightarrow> c y z \<le> 0 \<Longrightarrow> c x z \<le> 0"
  unfolding consistent_def by blast

lemma consistent_sym: "consistent c \<Longrightarrow> c x y = 0 \<Longrightarrow> c y x = 0"
  unfolding consistent_def by (metis less_irrefl linorder_neqE_linordered_idom)

lemma consistent_equiv:
  assumes "consistent c" and "c y x = 0" and "c y z = 0"
  shows "c x z = 0"
proof -
  have xy: "c x y = 0" using assms(1,2) by (rule consistent_sym)
  have zy: "c z y = 0" using assms(1,3) by (rule consistent_sym)
  have "c x z \<le> 0" using consistent_trans [OF assms(1), of x y z] xy assms(3) by simp
  moreover have "c z x \<le> 0" using consistent_trans [OF assms(1), of z y x] zy assms(2) by simp
  then have "\<not> c x z < 0" using assms(1) unfolding consistent_def by (metis not_le)
  ultimately show ?thesis by simp
qed

lemma sorted_insert_by:
  assumes "consistent c" and "sorted_wrt (\<lambda>a b. c a b \<le> 0) xs"
  shows "sorted_wrt (\<lambda>a b. c a b \<le> 0) (insert_by c x xs)"
  using assms(2)
proof (induction xs)
  case Nil
  then show ?case by simp
next
  case (Cons y ys)
  show ?case
  proof (cases "c x y \<le> 0")
    case True
    with Cons.prems show ?thesis
      by (auto intro: consistent_trans [OF assms(1)])
  next
    case False
    then have "c y x \<le> 0" by (rule consistent_total [OF assms(1)])
    with False Cons show ?thesis
      by (auto simp: set_insert_by)
  qed
qed

lemma sorted_sort_by:
  "consistent c \<Longrightarrow> sorted_wrt (\<lambda>a b. c a b \<le> 0) (sort_by c xs)"
  by (induction xs) (simp_all add: sort_by_def sorted_insert_by)

lemma stable_insert_equiv:
  assumes "consistent c" and "c y x = 0"
  shows "filter (\<lambda>z. c y z = 0) (insert_by c x xs) = x # filter (\<lambda>z. c y z = 0) xs"
proof (induction xs)
  case Nil
  with assms(2) show ?case by simp
next
  case (Cons z zs)
  show ?case
  proof (cases "c x z \<le> 0")
    case True
    with assms(2) show ?thesis by simp
  next
    case False
    then have "c y z \<noteq> 0"
      using consistent_equiv [OF assms(1) assms(2), of z] by auto
    with False Cons show ?thesis by simp
  qed
qed

lemma stable_insert_not_equiv:
  assumes "c y x \<noteq> 0"
  shows "filter (\<lambda>z. c y z = 0) (insert_by c x xs) = filter (\<lambda>z. c y z = 0) xs"
  using assms by (induction xs) simp_all

lemma stable_sort_by:
  "consistent c \<Longrightarrow> filter (\<lambda>z. c y z = 0) (sort_by c xs) = filter (\<lambda>z. c y z = 0) xs"
  by (induction xs)
    (simp_all add: sort_by_def stable_insert_equiv stable_insert_not_equiv)

lemma consistent_flip: "consistent c \<Longrightarrow> consistent (\<lambda>a b. c b a)"
  unfolding consistent_def by blast

lemma consistent_on: "consistent c \<Longrightarrow> consistent (\<lambda>a b. c (g a) (g b))"
  unfolding consistent_def by blast

section \<open>The derived view\<close>

lemma get_property_kind:
  "(\<exists>x y. get_property a k = JString x \<and> get_property b k = JString y)
   \<or> (\<exists>x y. get_property a k = JNumber x \<and> get_property b k = JNumber y)
   \<or> (get_property a k = JUndefined \<and> get_property b k = JUndefined)"
  by (simp add: get_property_def)

lemma sort_compare_compareFn:
  "sort_compare (compareFn env f a b) =
     (if sortOrder f = ''desc'' then key_compare env (sortBy f) b a
      else key_compare env (sortBy f) a b)"
  using get_property_kind [of a "sortBy f" b]
  by (auto simp: compareFn_def key_compare_def Let_def)

lemma consistent_key_compare:
  assumes "consistent (localeCompare env)"
  shows "consistent (key_compare env k)"
proof -
  have r: "localeCompare env x x = 0" for x
    using assms by (simp add: consistent_def)
  have a: "localeCompare env x y < 0 \<longleftrightarrow> 0 < localeCompare env y x" for x y
    using assms unfolding consistent_def by blast
  have t: "localeCompare env x y \<le> 0 \<Longrightarrow> localeCompare env y z \<le> 0 \<Longrightarrow> localeCompare env x z \<le> 0" for x y z
    using assms unfolding consistent_def by blast
  have 1: "key_compare env k x x = 0" for x
    using get_property_kind [of x k x] by (auto simp: key_compare_def r)
  have 2: "key_compare env k x y < 0 \<longleftrightarrow> 0 < key_compare env k y x" for x y
    using get_property_kind [of x k y] by (auto simp: key_compare_def a)
  have 3: "key_compare env k x z \<le> 0"
    if "key_compare env k x y \<le> 0" "key_compare env k y z \<le> 0" for x y z
    using get_property_kind [of x k y] get_property_kind [of y k z] that
    by (auto simp: key_compare_def intro: t)
  show ?thesis
    unfolding consistent_def using 1 2 3 by blast
qed

lemma consistent_compareFn:
  assumes "consistent (localeCompare env)"
  shows "consistent (\<lambda>a b. sort_compare (compareFn env f (obj a) (obj b)))"
proof (cases "sortOrder f = ''desc''")
  case True
  then have "(\<lambda>a b. sort_compare (compareFn env f (obj a) (obj b)))
      = (\<lambda>a b. (\<lambda>x y. key_compare env (sortBy f) y x) (obj a) (obj b))"
    by (simp add: sort_compare_compareFn)
  then show ?thesis
    using consistent_on [OF consistent_flip [OF consistent_key_compare [OF assms]]]
    by simp
next
  case False
  then have "(\<lambda>a b. sort_compare (compareFn env f (obj a) (obj b)))
      = (\<lambda>a b. key_compare env (sortBy f) (obj a) (obj b))"
    by (simp add: sort_compare_compareFn)
  then show ?thesis
    using consistent_on [OF consistent_key_compare [OF assms]]
    by simp
qed

lemma filteredLeads_result:
  assumes "leadsRef < length h"
  shows "take (length h) (fst (filteredLeads env obj h leadsRef f)) = h
    \<and> length h \<le> snd (filteredLeads env obj h leadsRef f)
    \<and> snd (filteredLeads env obj h leadsRef f) < length (fst (filteredLeads env obj h leadsRef f))
    \<and> view_of (filteredLeads env obj h leadsRef f)
        = sort_by (\<lambda>a b. sort_compare (compareFn env f (obj a) (obj b)))
            (filter (\<lambda>r. in_view env f (obj r)) (h ! leadsRef))"
  using assms
  by (auto simp: filteredLeads_def array_spread_def array_filter_def array_sort_def
      new_array_def view_of_def in_view_def Let_def nth_append)

lemma ordered_iff:
  "ordered env f a b \<longleftrightarrow> sort_compare (compareFn env f a b) \<le> 0"
  by (simp add: ordered_def sort_compare_compareFn)

lemma same_key_iff:
  assumes "consistent (localeCompare env)"
  shows "same_key env f a b \<longleftrightarrow> sort_compare (compareFn env f a b) = 0"
  using consistent_sym [OF consistent_key_compare [OF assms], of "sortBy f"]
  by (auto simp: same_key_def sort_compare_compareFn)

lemma consistent_codepoint_compare: "consistent codepoint_compare"
  unfolding consistent_def codepoint_compare_def by (auto simp: not_less)

text \<open>
  C5.  For every array of leads in the store, every criteria and every consistent locale
  comparison: the returned array holds exactly the references of the input whose lead
  passes the search (name or company contains the search string, both lower-cased;
  every lead when the search string is empty) and the status filter (every lead when
  it is \<^verbatim>\<open>all\<close>), each as often as the input holds it; it is ordered by the sort key,
  text by locale comparison and numbers by difference, flipped when the direction is
  \<^verbatim>\<open>desc\<close>; leads with equal keys keep their order of the input; every array that
  existed before, the input among them, is unchanged, and the result is a new array.
\<close>

theorem derived_view:
  assumes "leadsRef < length h" and "consistent (localeCompare env)"
  shows "mset (view_of (filteredLeads env obj h leadsRef f))
        = mset (filter (\<lambda>r. in_view env f (obj r)) (h ! leadsRef))
    \<and> set (view_of (filteredLeads env obj h leadsRef f)) \<subseteq> set (h ! leadsRef)
    \<and> sorted_wrt (\<lambda>a b. ordered env f (obj a) (obj b))
        (view_of (filteredLeads env obj h leadsRef f))
    \<and> filter (\<lambda>r. same_key env f (obj x) (obj r)) (view_of (filteredLeads env obj h leadsRef f))
        = filter (\<lambda>r. same_key env f (obj x) (obj r))
            (filter (\<lambda>r. in_view env f (obj r)) (h ! leadsRef))
    \<and> take (length h) (fst (filteredLeads env obj h leadsRef f)) = h
    \<and> fst (filteredLeads env obj h leadsRef f) ! leadsRef = h ! leadsRef
    \<and> length h \<le> snd (filteredLeads env obj h leadsRef f)"
proof -
  let ?c = "\<lambda>a b. sort_compare (compareFn env f (obj a) (obj b))"
  let ?input = "filter (\<lambda>r. in_view env f (obj r)) (h ! leadsRef)"
  let ?res = "filteredLeads env obj h leadsRef f"
  note res = filteredLeads_result [OF assms(1), of env obj f]
  have v: "view_of ?res = sort_by ?c ?input"
    using res by simp
  have c: "consistent ?c"
    using assms(2) by (rule consistent_compareFn)
  have m: "mset (view_of ?res) = mset ?input"
    unfolding v by (rule mset_sort_by)
  have "set (view_of ?res) = set ?input"
    using m by (rule mset_eq_setD)
  then have sub: "set (view_of ?res) \<subseteq> set (h ! leadsRef)"
    by auto
  have so: "sorted_wrt (\<lambda>a b. ordered env f (obj a) (obj b)) (view_of ?res)"
    unfolding v ordered_iff using c by (rule sorted_sort_by)
  have st: "filter (\<lambda>r. same_key env f (obj x) (obj r)) (view_of ?res)
      = filter (\<lambda>r. same_key env f (obj x) (obj r)) ?input"
    unfolding v same_key_iff [OF assms(2)] using c by (rule stable_sort_by)
  have pre: "take (length h) (fst ?res) = h"
    using res by simp
  have "fst ?res ! leadsRef = take (length h) (fst ?res) ! leadsRef"
    using assms(1) by simp
  then have same: "fst ?res ! leadsRef = h ! leadsRef"
    unfolding pre .
  have fresh: "length h \<le> snd ?res"
    using res by simp
  show ?thesis
    using m sub so st pre same fresh by blast
qed

theorem derived_view_witness:
  "0 < length sample_heap
   \<and> consistent (localeCompare sample_ops)
   \<and> mset (view_of (filteredLeads sample_ops sample_objects sample_heap 0 sample_criteria))
       = mset [2, 3]
   \<and> filter (\<lambda>r. same_key sample_ops sample_criteria (sample_objects 2) (sample_objects r))
        (view_of (filteredLeads sample_ops sample_objects sample_heap 0 sample_criteria))
       = [2, 3]
   \<and> fst (filteredLeads sample_ops sample_objects sample_heap 0 sample_criteria) ! 0
       = sample_array"
proof -
  have h1: "0 < length sample_heap"
    by (simp add: sample_heap_def)
  have h2: "consistent (localeCompare sample_ops)"
    by (simp add: sample_ops_def consistent_codepoint_compare)
  have inp: "sample_heap ! 0 = sample_array"
    by (simp add: sample_heap_def)
  have sel: "filter (\<lambda>r. in_view sample_ops sample_criteria (sample_objects r)) sample_array = [2, 3]"
    by code_simp
  have key: "filter (\<lambda>r. same_key sample_ops sample_criteria (sample_objects 2) (sample_objects r)) [2, 3]
      = [2, 3]"
    by code_simp
  note t = derived_view [OF h1 h2, of sample_objects sample_criteria 2]
  have a: "mset (view_of (filteredLeads sample_ops sample_objects sample_heap 0 sample_criteria))
       = mset [2, 3]"
    using t unfolding inp sel by blast
  have b: "filter (\<lambda>r. same_key sample_ops sample_criteria (sample_objects 2) (sample_objects r))
        (view_of (filteredLeads sample_ops sample_objects sample_heap 0 sample_criteria))
       = [2, 3]"
    using t unfolding inp sel key by blast
  have c: "fst (filteredLeads sample_ops sample_objects sample_heap 0 sample_criteria) ! 0
       = sample_array"
    using t unfolding inp by blast
  show ?thesis
    using h1 h2 a b c by blast
qed

section \<open>Automatic clearing of the error\<close>







end
